theory Spec2Isabelle
  imports Main "HOL-Library.Word" "HOL-Library.Multiset"
begin

section \<open>Data model\<close>

text \<open>
  The repository holds three revisions of one program: \<open>src/unnamed/part_001\<close> (the
  earliest: one goroutine per file, root is the working directory),
  \<open>src/main.go\<close> (worker pool, root is the Desktop directory below the home directory) and
  \<open>src/unnamed/part_000\<close> (as \<open>main.go\<close>, with sorting and the
  \<open>skip-node-modules\<close> flag). Definitions that differ between the revisions carry the
  suffix \<open>_p000\<close> or \<open>_p001\<close>; the unsuffixed ones follow \<open>main.go\<close>.

  Go's \<open>int\<close> and \<open>int64\<close> are modelled as 64-bit words (the 64-bit targets of Go):
  addition wraps around.
\<close>

type_synonym go_int = "64 word"

datatype error = ErrBadPattern | ErrTooLong | PathError string | ErrHome | NilDereference

text \<open>\<open>type LanguageStas struct { FileCount int; LineCount int; ByteCount int64; mutex }\<close>.
  The \<open>mutex\<close> field is only used in \<open>part_001\<close> and is part of the interleaving model
  below, not of the record. \<open>part_001\<close> has no \<open>ByteCount\<close>; there it stays 0.\<close>

record LanguageStas =
  FileCount :: go_int
  LineCount :: go_int
  ByteCount :: go_int

record FileResult =
  path :: string
  language :: string

type_synonym StatsTable = "string \<rightharpoonup> LanguageStas"

definition languageExtList :: "(string \<times> string) list" where
  "languageExtList =
    [(''.go'', ''Go''), (''.py'', ''Python''), (''.js'', ''JavaScript''),
     (''.ts'', ''TypeScript''), (''.java'', ''Java''), (''.cpp'', ''C++''),
     (''.c'', ''C''), (''.rb'', ''Ruby''), (''.php'', ''PHP''), (''.rs'', ''Rust''),
     (''.swift'', ''Swift''), (''.kt'', ''Kotlin'')]"

definition languageExtMap :: "string \<rightharpoonup> string" where
  "languageExtMap = map_of languageExtList"

section \<open>The library functions the walker calls\<close>

text \<open>
  Models of the Go standard library on Unix, over byte strings. \<open>Separator\<close> is the
  slash. \<open>ToLower\<close> and \<open>TrimSpace\<close> treat the ASCII range only: bytes of a multi-byte
  rune are left as they are, so the models are exact on ASCII input (the library lowers
  every upper-case rune, among them U+212A and U+0130, whose lower case is an ASCII
  letter, and trims Unicode white space).
\<close>

definition Separator :: char where
  "Separator = CHR ''/''"

text \<open>\<open>filepath.Ext\<close>: the suffix beginning at the final dot in the final element of the
  path; empty if there is no dot. The source scans from the end and stops at a separator.\<close>

fun ExtRev :: "string \<Rightarrow> string \<Rightarrow> string" where
  "ExtRev [] acc = []"
| "ExtRev (c # cs) acc =
     (if c = Separator then []
      else if c = CHR ''.'' then c # acc
      else ExtRev cs (c # acc))"

definition Ext :: "string \<Rightarrow> string" where
  "Ext p = ExtRev (rev p) []"

text \<open>\<open>filepath.Base\<close>: the last element of the path, after removing trailing
  separators; \<open>.\<close> for the empty path, one separator for a path of separators only.\<close>

definition Base :: "string \<Rightarrow> string" where
  "Base p =
     (if p = [] then ''.''
      else let q = rev (dropWhile (\<lambda>c. c = Separator) (rev p));
               r = rev (takeWhile (\<lambda>c. c \<noteq> Separator) (rev q))
           in if r = [] then [Separator] else r)"

text \<open>\<open>filepath.Join\<close> of a directory path and one entry name, as \<open>filepath.Walk\<close> and
  \<open>main\<close> call it: empty elements are ignored and the rest joined by one separator. The
  final \<open>Clean\<close> (removal of \<open>.\<close>, \<open>..\<close> and doubled separators) is the identity on the
  clean directory paths and plain entry names these callers pass, and is not modelled.\<close>

definition Join :: "string \<Rightarrow> string \<Rightarrow> string" where
  "Join dir name =
     (if dir = [] then name
      else if name = [] then dir
      else if last dir = Separator then dir @ name
      else dir @ [Separator] @ name)"

definition lowerByte :: "char \<Rightarrow> char" where
  "lowerByte c =
     (case map_of (zip ''ABCDEFGHIJKLMNOPQRSTUVWXYZ'' ''abcdefghijklmnopqrstuvwxyz'') c of
        Some l \<Rightarrow> l
      | None \<Rightarrow> c)"

definition ToLower :: "string \<Rightarrow> string" where
  "ToLower s = map lowerByte s"

definition isSpace :: "char \<Rightarrow> bool" where
  "isSpace c = (c \<in> set [CHR 0x09, CHR 0x0A, CHR 0x0B, CHR 0x0C, CHR 0x0D, CHR '' ''])"

definition TrimSpace :: "string \<Rightarrow> string" where
  "TrimSpace s = rev (dropWhile isSpace (rev (dropWhile isSpace s)))"

text \<open>\<open>strings.Split(s, ",")\<close>: the pieces between the commas; one piece, possibly empty,
  when there is no comma.\<close>

fun Split :: "string \<Rightarrow> char \<Rightarrow> string list" where
  "Split [] sep = [[]]"
| "Split (c # cs) sep =
     (if c = sep then [] # Split cs sep
      else (case Split cs sep of [] \<Rightarrow> [[c]] | x # xs \<Rightarrow> (c # x) # xs))"

text \<open>The glob matcher \<open>filepath.Match(pattern, name)\<close> returns \<open>(matched, err)\<close>; the only
  error is \<open>ErrBadPattern\<close>. The walker's callbacks take the matcher as the
  argument \<open>glob\<close>.\<close>

type_synonym matcher = "string \<Rightarrow> string \<Rightarrow> error + bool"

subsection \<open>The glob matcher\<close>

text \<open>
  A model of \<open>filepath.Match\<close> that follows the library's algorithm on byte strings:
  the pattern is cut into chunks at the stars outside character classes, a chunk is matched
  against the front of the name, and a chunk after a star is tried at every later position
  up to a separator. A malformed chunk is reported with \<open>ErrBadPattern\<close>, also when the
  match has failed inside that chunk. A rune is taken to be one byte, so \<open>?\<close> and a
  character class consume one byte: the model is exact on ASCII names and patterns. The
  theorems below are about any matcher; this one is what they are applied to in the
  examples.
\<close>

definition backslash :: char where
  "backslash = CHR 0x5C"

text \<open>\<open>getEsc\<close>: one possibly escaped character of a character class.\<close>

definition getEsc :: "string \<Rightarrow> error + char \<times> string" where
  "getEsc chunk =
     (case chunk of
        [] \<Rightarrow> Inl ErrBadPattern
      | c # cs \<Rightarrow>
          if c = CHR ''-'' \<or> c = CHR '']'' then Inl ErrBadPattern
          else (case (if c = backslash then cs else chunk) of
                  [] \<Rightarrow> Inl ErrBadPattern
                | r # nchunk \<Rightarrow> if nchunk = [] then Inl ErrBadPattern else Inr (r, nchunk)))"

lemma getEsc_shorter: "getEsc chunk = Inr (r, nchunk) \<Longrightarrow> length nchunk < length chunk"
  by (auto simp: getEsc_def split: list.splits if_splits)

definition inRange :: "char \<Rightarrow> char \<Rightarrow> char \<Rightarrow> bool" where
  "inRange lo r hi = ((of_char lo :: nat) \<le> of_char r \<and> (of_char r :: nat) \<le> of_char hi)"

text \<open>The loop over the ranges of a character class, up to the closing bracket.\<close>

function classLoop :: "string \<Rightarrow> char \<Rightarrow> bool \<Rightarrow> nat \<Rightarrow> error + bool \<times> string" where
  "classLoop chunk r match nrange =
     (if chunk \<noteq> [] \<and> hd chunk = CHR '']'' \<and> 0 < nrange then Inr (match, tl chunk)
      else (case getEsc chunk of
              Inl err \<Rightarrow> Inl err
            | Inr (lo, chunk1) \<Rightarrow>
                if hd chunk1 = CHR ''-''
                then (case getEsc (tl chunk1) of
                        Inl err \<Rightarrow> Inl err
                      | Inr (hi, chunk2) \<Rightarrow>
                          classLoop chunk2 r (match \<or> inRange lo r hi) (nrange + 1))
                else classLoop chunk1 r (match \<or> inRange lo r lo) (nrange + 1)))"
  by pat_completeness auto
termination
proof (relation "measure (\<lambda>(chunk, r, m, n). length chunk)", goal_cases)
  case 1 show ?case by simp
next
  case (2 chunk r match nrange x lo chunk1 x2 hi chunk2)
  then show ?case
    using getEsc_shorter [of chunk lo chunk1] getEsc_shorter [of "tl chunk1" hi chunk2]
    by (cases chunk1) auto
next
  case (3 chunk r match nrange x lo chunk1)
  then show ?case using getEsc_shorter [of chunk lo chunk1] by auto
qed

declare classLoop.simps [simp del]

lemma classLoop_shorter:
  "classLoop chunk r m n = Inr (m', rest) \<Longrightarrow> length rest \<le> length chunk"
proof (induction chunk r m n rule: classLoop.induct)
  case (1 chunk r match nrange)
  note eq = classLoop.simps [of chunk r match nrange]
  show ?case
  proof (cases "chunk \<noteq> [] \<and> hd chunk = CHR '']'' \<and> 0 < nrange")
    case True
    with "1.prems" eq show ?thesis by (cases chunk) auto
  next
    case False
    note F = False
    note eq = eq [unfolded if_not_P [OF F]]
    show ?thesis
    proof (cases "getEsc chunk")
      case (Inl e)
      with "1.prems" eq show ?thesis by simp
    next
      case (Inr pr)
      obtain lo chunk1 where pr: "pr = (lo, chunk1)" by (cases pr)
      have l1: "length chunk1 < length chunk" using Inr pr getEsc_shorter by blast
      show ?thesis
      proof (cases "hd chunk1 = CHR ''-''")
        case True
        note T = True
        show ?thesis
        proof (cases "getEsc (tl chunk1)")
          case (Inl e)
          with \<open>getEsc chunk = Inr pr\<close> pr T "1.prems" eq show ?thesis by simp
        next
          case (Inr pr2)
          obtain hi chunk2 where pr2: "pr2 = (hi, chunk2)" by (cases pr2)
          have l2: "length chunk2 < length (tl chunk1)" using Inr pr2 getEsc_shorter by blast
          from \<open>getEsc chunk = Inr pr\<close> pr T Inr pr2 "1.prems" eq
          have "classLoop chunk2 r (match \<or> inRange lo r hi) (nrange + 1) = Inr (m', rest)"
            by simp
          from "1.IH"(1) [OF F \<open>getEsc chunk = Inr pr\<close> pr [symmetric] T Inr pr2 [symmetric] this]
          show ?thesis using l1 l2 by simp
        qed
      next
        case False
        from Inr pr False "1.prems" eq
        have "classLoop chunk1 r (match \<or> inRange lo r lo) (nrange + 1) = Inr (m', rest)"
          by simp
        from "1.IH"(2) [OF F Inr pr [symmetric] False this]
        show ?thesis using l1 by simp
      qed
    qed
  qed
qed


text \<open>\<open>matchChunk\<close>: once the match has failed the loop goes on through the chunk,
  checking that it is well formed, without reading the name.\<close>

function matchChunkLoop :: "string \<Rightarrow> string \<Rightarrow> bool \<Rightarrow> error + string \<times> bool" where
  "matchChunkLoop chunk s failed0 =
     (case chunk of
        [] \<Rightarrow> if failed0 then Inr ([], False) else Inr (s, True)
      | c # chunk1 \<Rightarrow>
          (let failed = (failed0 \<or> s = []) in
           if c = CHR ''['' then
             (let r = (if failed then CHR 0x00 else hd s);
                  s1 = (if failed then s else tl s);
                  negated = (chunk1 \<noteq> [] \<and> hd chunk1 = CHR ''^'');
                  chunk2 = (if negated then tl chunk1 else chunk1)
              in case classLoop chunk2 r False 0 of
                   Inl err \<Rightarrow> Inl err
                 | Inr (match, chunk3) \<Rightarrow>
                     matchChunkLoop chunk3 s1 (failed \<or> match = negated))
           else if c = CHR ''?'' then
             matchChunkLoop chunk1 (if failed then s else tl s) (failed \<or> hd s = Separator)
           else if c = backslash then
             (case chunk1 of
                [] \<Rightarrow> Inl ErrBadPattern
              | d # chunk2 \<Rightarrow>
                  matchChunkLoop chunk2 (if failed then s else tl s) (failed \<or> d \<noteq> hd s))
           else matchChunkLoop chunk1 (if failed then s else tl s) (failed \<or> c \<noteq> hd s)))"
  by pat_completeness auto
termination
  by (relation "measure (\<lambda>(chunk, s, f). length chunk)")
     (auto dest!: classLoop_shorter split: if_splits)

definition matchChunk :: "string \<Rightarrow> string \<Rightarrow> error + string \<times> bool" where
  "matchChunk chunk s = matchChunkLoop chunk s False"

text \<open>\<open>scanChunk\<close>: the stars in front, then the chunk up to the next star outside a
  character class.\<close>

fun scanIdx :: "string \<Rightarrow> bool \<Rightarrow> nat" where
  "scanIdx [] inrange = 0"
| "scanIdx (c # cs) inrange =
     (if c = backslash then (case cs of [] \<Rightarrow> 1 | d # ds \<Rightarrow> 2 + scanIdx ds inrange)
      else if c = CHR ''['' then 1 + scanIdx cs True
      else if c = CHR '']'' then 1 + scanIdx cs False
      else if c = CHR ''*'' \<and> \<not> inrange then 0
      else 1 + scanIdx cs inrange)"

definition scanChunk :: "string \<Rightarrow> bool \<times> string \<times> string" where
  "scanChunk pattern =
     (let star = (pattern \<noteq> [] \<and> hd pattern = CHR ''*'');
          p = dropWhile (\<lambda>c. c = CHR ''*'') pattern;
          i = scanIdx p False
      in (star, take i p, drop i p))"

lemma scanChunk_shorter:
  "pattern \<noteq> [] \<Longrightarrow> scanChunk pattern = (star, chunk, rest) \<Longrightarrow> length rest < length pattern"
proof -
  assume ne: "pattern \<noteq> []" and sc: "scanChunk pattern = (star, chunk, rest)"
  let ?p = "dropWhile (\<lambda>c. c = CHR ''*'') pattern"
  have rest: "rest = drop (scanIdx ?p False) ?p" using sc by (simp add: scanChunk_def Let_def)
  have le: "length ?p \<le> length pattern" by (rule length_dropWhile_le)
  show ?thesis
  proof (cases "hd pattern = CHR ''*''")
    case True
    with ne have "length ?p < length pattern"
      by (cases pattern) (auto intro: le_imp_less_Suc length_dropWhile_le)
    with rest show ?thesis by simp
  next
    case False
    with ne have p: "?p = pattern" by (cases pattern) auto
    from ne False have "0 < scanIdx pattern False"
      by (cases pattern) (auto simp: backslash_def split: list.splits)
    with rest p ne show ?thesis by simp
  qed
qed

text \<open>The loop that tries the chunk after a star at the later positions of the name.\<close>

datatype starRes = Found string | Bad error | NotFound

fun starLoop :: "string \<Rightarrow> bool \<Rightarrow> string \<Rightarrow> starRes" where
  "starLoop chunk lastChunk [] = NotFound"
| "starLoop chunk lastChunk (c # name') =
     (if c = Separator then NotFound
      else (case matchChunk chunk name' of
              Inl err \<Rightarrow> Bad err
            | Inr (t, ok) \<Rightarrow>
                if ok then (if lastChunk \<and> t \<noteq> [] then starLoop chunk lastChunk name' else Found t)
                else starLoop chunk lastChunk name'))"

text \<open>\<open>Match\<close>: when a chunk does not match, also not after a star, the result is false
  without an error, and the chunks after it are not looked at.\<close>

function Match :: "string \<Rightarrow> string \<Rightarrow> error + bool" where
  "Match pattern name =
     (if pattern = [] then Inr (name = [])
      else (case scanChunk pattern of
              (star, chunk, rest) \<Rightarrow>
                if star \<and> chunk = [] then Inr (Separator \<notin> set name)
                else (case matchChunk chunk name of
                        Inl err \<Rightarrow> Inl err
                      | Inr (t, ok) \<Rightarrow>
                          if ok \<and> (t = [] \<or> rest \<noteq> []) then Match rest t
                          else if star then
                            (case starLoop chunk (rest = []) name of
                               Found t' \<Rightarrow> Match rest t'
                             | Bad err \<Rightarrow> Inl err
                             | NotFound \<Rightarrow> Inr False)
                          else Inr False)))"
  by pat_completeness auto
termination
  by (relation "measure (\<lambda>(p, n). length p)") (auto dest: scanChunk_shorter [OF _ sym])

declare Match.simps [simp del] matchChunkLoop.simps [simp del]

section \<open>The file tree and \<open>filepath.Walk\<close>\<close>

text \<open>
  What \<open>os.Lstat\<close> and the directory listing return below one root:
  a directory (its name, the error of reading its entries if any, and its entries in the
  order \<open>readDirNames\<close> returns them), a regular file, an entry that is neither a
  directory nor a regular file (a symbolic link, a device, a named pipe, a socket), or an
  entry whose \<open>Lstat\<close> fails. \<open>filepath.Walk\<close> and the callbacks ask \<open>IsDir()\<close> only, so
  they treat the second and the third alike.
\<close>

datatype fsnode =
    Dir string "error option" "fsnode list"
  | File string
  | Special string
  | Broken string error

fun nodeName :: "fsnode \<Rightarrow> string" where
  "nodeName (Dir n e cs) = n"
| "nodeName (File n) = n"
| "nodeName (Special n) = n"
| "nodeName (Broken n e) = n"

record FileInfo =
  Name :: string
  IsDir :: bool

datatype walkRet = RetNil | SkipDir | RetErr error

text \<open>A \<open>WalkFunc\<close>: path, file info (absent when \<open>Lstat\<close> failed), the error handed in,
  and the tasks sent into \<open>filesChan\<close> so far; it returns its result and the tasks sent.\<close>

type_synonym walkFunc =
  "string \<Rightarrow> FileInfo option \<Rightarrow> error option \<Rightarrow> FileResult list \<Rightarrow> walkRet \<times> FileResult list"

text \<open>
  \<open>filepath.walk\<close> (the recursion) and its loop over the names of a directory:
  a non-directory is handed to the function; a directory is listed first, then handed to
  the function with the listing's error, and entered only when both are nil. In the loop
  an entry whose \<open>Lstat\<close> fails is handed to the function with that error, and a
  \<open>SkipDir\<close> coming back from a directory only skips that directory.
\<close>

fun walk :: "walkFunc \<Rightarrow> string \<Rightarrow> fsnode \<Rightarrow> FileResult list \<Rightarrow> walkRet \<times> FileResult list"
and walkNames :: "walkFunc \<Rightarrow> string \<Rightarrow> fsnode list \<Rightarrow> FileResult list \<Rightarrow> walkRet \<times> FileResult list"
where
  "walk fn p (File n) ch = fn p (Some \<lparr>Name = n, IsDir = False\<rparr>) None ch"
| "walk fn p (Special n) ch = fn p (Some \<lparr>Name = n, IsDir = False\<rparr>) None ch"
| "walk fn p (Broken n e) ch = fn p None (Some e) ch"
| "walk fn p (Dir n e cs) ch =
     (case fn p (Some \<lparr>Name = n, IsDir = True\<rparr>) e ch of
        (err1, ch') \<Rightarrow>
          if e \<noteq> None \<or> err1 \<noteq> RetNil then (err1, ch')
          else walkNames fn p cs ch')"
| "walkNames fn p [] ch = (RetNil, ch)"
| "walkNames fn p (c # cs) ch =
     (case c of
        Broken n e \<Rightarrow>
          (case fn (Join p n) None (Some e) ch of
             (RetErr e', ch') \<Rightarrow> (RetErr e', ch')
           | (r, ch') \<Rightarrow> walkNames fn p cs ch')
      | File n \<Rightarrow>
          (case walk fn (Join p n) c ch of
             (RetNil, ch') \<Rightarrow> walkNames fn p cs ch'
           | (r, ch') \<Rightarrow> (r, ch'))
      | Special n \<Rightarrow>
          (case walk fn (Join p n) c ch of
             (RetNil, ch') \<Rightarrow> walkNames fn p cs ch'
           | (r, ch') \<Rightarrow> (r, ch'))
      | Dir n e ds \<Rightarrow>
          (case walk fn (Join p n) c ch of
             (RetErr e', ch') \<Rightarrow> (RetErr e', ch')
           | (r, ch') \<Rightarrow> walkNames fn p cs ch'))"

text \<open>\<open>filepath.Walk(root, fn)\<close>: a \<open>SkipDir\<close> at the root is no error.\<close>

definition Walk :: "walkFunc \<Rightarrow> string \<Rightarrow> fsnode \<Rightarrow> error option \<times> FileResult list" where
  "Walk fn root t =
     (case walk fn root t [] of
        (RetErr e, ch) \<Rightarrow> (Some e, ch)
      | (r, ch) \<Rightarrow> (None, ch))"

section \<open>The walker's callbacks\<close>

text \<open>The loop over \<open>excludePatterns\<close> in \<open>main.go\<close> and \<open>part_000\<close>:
  \<open>if err != nil || matched { return nil }\<close>. The result says whether the callback
  returned from inside the loop.\<close>

fun excludeLoop :: "matcher \<Rightarrow> string list \<Rightarrow> string \<Rightarrow> bool" where
  "excludeLoop glob [] p = False"
| "excludeLoop glob (pattern # ps) p =
     (case glob (TrimSpace pattern) (Base p) of
        Inl err \<Rightarrow> True
      | Inr matched \<Rightarrow> if matched then True else excludeLoop glob ps p)"

text \<open>The same loop in \<open>part_001\<close>: an error is printed and the loop continues with the
  next pattern. The patterns were trimmed when the flag was read.\<close>

fun excludeLoop_p001 :: "matcher \<Rightarrow> string list \<Rightarrow> string \<Rightarrow> bool" where
  "excludeLoop_p001 glob [] p = False"
| "excludeLoop_p001 glob (pattern # ps) p =
     (case glob pattern (Base p) of
        Inl err \<Rightarrow> excludeLoop_p001 glob ps p
      | Inr matched \<Rightarrow> if matched then True else excludeLoop_p001 glob ps p)"

text \<open>The last step of every callback: the lowercased extension is looked up and a
  \<open>FileResult\<close> is sent.\<close>

definition classify :: "string \<Rightarrow> FileResult list \<Rightarrow> walkRet \<times> FileResult list" where
  "classify p ch =
     (let ext = ToLower (Ext p) in
      case languageExtMap ext of
        Some lang \<Rightarrow> (RetNil, ch @ [\<lparr>path = p, language = lang\<rparr>])
      | None \<Rightarrow> (RetNil, ch))"

text \<open>The callback of \<open>main.go\<close>. \<open>filepath.Walk\<close> hands in a nil \<open>info\<close> only together
  with an error, so the dereference of a nil \<open>info\<close> is never reached from \<open>Walk\<close>.\<close>

definition walkFn :: "matcher \<Rightarrow> string list \<Rightarrow> walkFunc" where
  "walkFn glob excludePatterns p info err ch =
     (case err of
        Some e \<Rightarrow> (RetErr e, ch)
      | None \<Rightarrow>
          (case info of
             None \<Rightarrow> (RetErr NilDereference, ch)
           | Some i \<Rightarrow>
               if IsDir i then (RetNil, ch)
               else if excludeLoop glob excludePatterns p then (RetNil, ch)
               else classify p ch))"

text \<open>The callback of \<open>part_000\<close>, with the \<open>skip-node-modules\<close> flag.\<close>

definition walkFn_p000 :: "bool \<Rightarrow> matcher \<Rightarrow> string list \<Rightarrow> walkFunc" where
  "walkFn_p000 skipNodeModules glob excludePatterns p info err ch =
     (case err of
        Some e \<Rightarrow> (RetErr e, ch)
      | None \<Rightarrow>
          (case info of
             None \<Rightarrow> (RetErr NilDereference, ch)
           | Some i \<Rightarrow>
               if skipNodeModules \<and> IsDir i \<and> Name i = ''node_modules'' then (SkipDir, ch)
               else if IsDir i then (RetNil, ch)
               else if excludeLoop glob excludePatterns p then (RetNil, ch)
               else classify p ch))"

text \<open>The callback of \<open>part_001\<close>. It starts one goroutine per classified file; the list
  collects the \<open>(path, lang)\<close> pairs the goroutines are started with.\<close>

definition walkFn_p001 :: "matcher \<Rightarrow> string list \<Rightarrow> walkFunc" where
  "walkFn_p001 glob excludePatterns p info err ch =
     (case err of
        Some e \<Rightarrow> (RetErr e, ch)
      | None \<Rightarrow>
          (case info of
             None \<Rightarrow> (RetErr NilDereference, ch)
           | Some i \<Rightarrow>
               if IsDir i then (RetNil, ch)
               else if excludeLoop_p001 glob excludePatterns p then (RetNil, ch)
               else classify p ch))"

section \<open>The counter: \<open>bufio.Scanner\<close>, \<open>countLines\<close> and \<open>processFile\<close>\<close>

text \<open>
  What the operating system answers for a path when a worker gets to it: whether
  \<open>os.Open\<close> and \<open>file.Stat\<close> fail, the size in the metadata, the bytes the reads deliver
  and the error that ends them (\<open>None\<close> is the end of the file).
\<close>

record osFile =
  openErr :: "error option"
  statErr :: "error option"
  Size :: go_int
  content :: string
  readErr :: "error option"

type_synonym os = "string \<Rightarrow> osFile"

definition MaxScanTokenSize :: nat where
  "MaxScanTokenSize = 64 * 1024"

definition newline :: char where
  "newline = CHR 0x0A"

text \<open>A \<open>bufio.Scanner\<close> with the default split function \<open>ScanLines\<close> and the default
  buffer: the bytes not yet consumed, the error that will end the reads, and \<open>Err()\<close>.\<close>

record Scanner =
  input :: string
  ioErr :: "error option"
  scanErr :: "error option"

definition NewScanner :: "osFile \<Rightarrow> Scanner" where
  "NewScanner f = \<lparr>input = content f, ioErr = readErr f, scanErr = None\<rparr>"

text \<open>\<open>bytes.IndexByte\<close>.\<close>

fun IndexByte :: "string \<Rightarrow> char \<Rightarrow> nat option" where
  "IndexByte [] c = None"
| "IndexByte (b # bs) c =
     (if b = c then Some 0 else map_option Suc (IndexByte bs c))"

text \<open>
  One call of \<open>Scan\<close>. A line ends at a newline; the buffer holds at most
  \<open>MaxScanTokenSize\<close> bytes, and a buffer that is full without a newline stops the
  scanner with \<open>ErrTooLong\<close>. When the reads end (at the end of the file or with an
  error) the bytes left, if any, are the last token; after that \<open>Scan\<close> is false and
  \<open>Err()\<close> is the read error, nil at the end of the file.
\<close>

definition Scan :: "Scanner \<Rightarrow> bool \<times> Scanner" where
  "Scan s =
     (case IndexByte (take MaxScanTokenSize (input s)) newline of
        Some i \<Rightarrow> (True, s\<lparr>input := drop (i + 1) (input s)\<rparr>)
      | None \<Rightarrow>
          if MaxScanTokenSize \<le> length (input s)
          then (False, s\<lparr>input := [], scanErr := Some ErrTooLong\<rparr>)
          else if input s = [] then (False, s\<lparr>scanErr := ioErr s\<rparr>)
          else (True, s\<lparr>input := []\<rparr>))"

text \<open>The loop \<open>for scanner.Scan() { lineCount++ }\<close>.\<close>

lemma IndexByte_Some_nonempty: "IndexByte bs c = Some i \<Longrightarrow> i < length bs"
  by (induction bs arbitrary: i) (auto split: if_splits)

lemma Scan_True_shorter:
  "Scan s = (True, s') \<Longrightarrow> length (input s') < length (input s)"
  by (auto simp: Scan_def split: option.splits if_splits dest!: IndexByte_Some_nonempty)

function scanLoop :: "Scanner \<Rightarrow> go_int \<Rightarrow> go_int \<times> Scanner" where
  "scanLoop s lineCount =
     (case Scan s of
        (ok, s') \<Rightarrow> if ok then scanLoop s' (lineCount + 1) else (lineCount, s'))"
  by pat_completeness auto
termination
  by (relation "measure (\<lambda>(s, n). length (input s))") (auto simp: Scan_True_shorter)

declare scanLoop.simps [simp del]

text \<open>\<open>countLines\<close> of \<open>part_001\<close> returns \<open>(lineCount, scanner.Err())\<close>, and
  \<open>(0, err)\<close> when the file does not open.\<close>

definition countLines :: "os \<Rightarrow> string \<Rightarrow> go_int \<times> error option" where
  "countLines os filePath =
     (let file = os filePath in
      case openErr file of
        Some err \<Rightarrow> (0, Some err)
      | None \<Rightarrow>
          (case scanLoop (NewScanner file) 0 of
             (lineCount, scanner) \<Rightarrow> (lineCount, scanErr scanner)))"

section \<open>The aggregator: the statements between \<open>statsMutex.Lock()\<close> and \<open>Unlock()\<close>\<close>

definition zeroStats :: LanguageStas where
  "zeroStats = \<lparr>FileCount = 0, LineCount = 0, ByteCount = 0\<rparr>"

text \<open>\<open>if _, exists := stats[language]; !exists { stats[language] = &LanguageStas{} }\<close>\<close>

definition createEntry :: "string \<Rightarrow> StatsTable \<Rightarrow> StatsTable" where
  "createEntry lang stats =
     (if stats lang = None then stats(lang \<mapsto> zeroStats) else stats)"

text \<open>An update through \<open>stats[language]\<close>. On a missing key the pointer is nil and Go
  panics; every caller has run \<open>createEntry\<close> before, so that branch is not reached and
  the model leaves the table unchanged there.\<close>

definition updEntry :: "string \<Rightarrow> (LanguageStas \<Rightarrow> LanguageStas) \<Rightarrow> StatsTable \<Rightarrow> StatsTable" where
  "updEntry lang f stats =
     (case stats lang of None \<Rightarrow> stats | Some st \<Rightarrow> stats(lang \<mapsto> f st))"

definition incFileCount :: "string \<Rightarrow> StatsTable \<Rightarrow> StatsTable" where
  "incFileCount lang = updEntry lang (\<lambda>st. st\<lparr>FileCount := FileCount st + 1\<rparr>)"

definition addLineCount :: "string \<Rightarrow> go_int \<Rightarrow> StatsTable \<Rightarrow> StatsTable" where
  "addLineCount lang lineCount =
     updEntry lang (\<lambda>st. st\<lparr>LineCount := LineCount st + lineCount\<rparr>)"

definition addByteCount :: "string \<Rightarrow> go_int \<Rightarrow> StatsTable \<Rightarrow> StatsTable" where
  "addByteCount lang n = updEntry lang (\<lambda>st. st\<lparr>ByteCount := ByteCount st + n\<rparr>)"

text \<open>The whole critical section of \<open>processFile\<close>, the spec's \<open>recordFile\<close>.\<close>

definition recordFile :: "string \<Rightarrow> go_int \<Rightarrow> go_int \<Rightarrow> StatsTable \<Rightarrow> StatsTable" where
  "recordFile lang lineCount byteCount stats =
     addByteCount lang byteCount
       (addLineCount lang lineCount (incFileCount lang (createEntry lang stats)))"

text \<open>The critical section of \<open>part_001\<close>, which has no byte count.\<close>

definition recordFile_p001 :: "string \<Rightarrow> go_int \<Rightarrow> StatsTable \<Rightarrow> StatsTable" where
  "recordFile_p001 lang lineCount stats =
     addLineCount lang lineCount (incFileCount lang (createEntry lang stats))"

section \<open>\<open>processFile\<close> and the run\<close>

text \<open>\<open>processFile\<close> of \<open>main.go\<close> and \<open>part_000\<close> (the two are the same): return when the
  file does not open, return when \<open>Stat\<close> fails, count the lines, record. \<open>scanner.Err()\<close>
  is not looked at.\<close>

definition processFile :: "os \<Rightarrow> string \<Rightarrow> string \<Rightarrow> StatsTable \<Rightarrow> StatsTable" where
  "processFile os p lang stats =
     (let file = os p in
      if openErr file \<noteq> None then stats
      else if statErr file \<noteq> None then stats
      else (case scanLoop (NewScanner file) 0 of
              (lineCount, scanner) \<Rightarrow> recordFile lang lineCount (Size file) stats))"

text \<open>The goroutine \<open>part_001\<close> starts for a file: return when \<open>countLines\<close> reports an
  error, record otherwise.\<close>

definition goroutine_p001 :: "os \<Rightarrow> string \<Rightarrow> string \<Rightarrow> StatsTable \<Rightarrow> StatsTable" where
  "goroutine_p001 os filePath lang stats =
     (case countLines os filePath of
        (lineCount, Some err) \<Rightarrow> stats
      | (lineCount, None) \<Rightarrow> recordFile_p001 lang lineCount stats)"

text \<open>The table after the workers have processed the tasks one after the other, in the
  order the walker sent them. The interleaving model below shows that every schedule
  of the worker pool ends with this table.\<close>

definition aggregate :: "os \<Rightarrow> FileResult list \<Rightarrow> StatsTable" where
  "aggregate os tasks = fold (\<lambda>t. processFile os (path t) (language t)) tasks Map.empty"

definition aggregate_p001 :: "os \<Rightarrow> FileResult list \<Rightarrow> StatsTable" where
  "aggregate_p001 os tasks = fold (\<lambda>t. goroutine_p001 os (path t) (language t)) tasks Map.empty"

text \<open>The totals of the report: the loop over the languages adds the three fields up.
  Addition on words is commutative, so the order of the languages does not matter.\<close>

definition totalFiles :: "StatsTable \<Rightarrow> go_int" where
  "totalFiles stats = (\<Sum>l\<in>dom stats. FileCount (the (stats l)))"

definition totalLines :: "StatsTable \<Rightarrow> go_int" where
  "totalLines stats = (\<Sum>l\<in>dom stats. LineCount (the (stats l)))"

definition totalSize :: "StatsTable \<Rightarrow> go_int" where
  "totalSize stats = (\<Sum>l\<in>dom stats. ByteCount (the (stats l)))"

text \<open>What the process is started with: the results of \<open>os.UserHomeDir()\<close> and
  \<open>os.Getwd()\<close>, the flags, and the positional arguments \<open>flag.Parse\<close> leaves over, which
  no revision reads.\<close>

record env =
  homeDir :: "error + string"
  workDir :: "error + string"
  excludeFlag :: string
  sortFlag :: string
  skipNodeModulesFlag :: bool
  args :: "string list"

text \<open>What a run does: it exits with a status before any report, or it prints the report
  (the table and its totals), after the message of a walk error if there was one.\<close>

record report =
  walkError :: "error option"
  table :: StatsTable
  files :: go_int
  lines :: go_int
  bytes :: go_int

datatype outcome = Exited nat | Reported report

definition mkReport :: "error option \<Rightarrow> StatsTable \<Rightarrow> report" where
  "mkReport err stats =
     \<lparr>walkError = err, table = stats, files = totalFiles stats, lines = totalLines stats,
      bytes = totalSize stats\<rparr>"

text \<open>\<open>excludePatterns := strings.Split(*excludePtr, ","); if *excludePtr == "" { nil }\<close>\<close>

definition excludePatterns :: "env \<Rightarrow> string list" where
  "excludePatterns e = (if excludeFlag e = [] then [] else Split (excludeFlag e) (CHR '',''))"

definition excludePatterns_p001 :: "env \<Rightarrow> string list" where
  "excludePatterns_p001 e =
     (if excludeFlag e \<noteq> [] then map TrimSpace (Split (excludeFlag e) (CHR '','')) else [])"

text \<open>The file discovery goroutine of \<open>main.go\<close>, of \<open>part_000\<close>, and the walk of
  \<open>part_001\<close>: \<open>filepath.Walk\<close> from the root with the callback. The result is the error
  of the walk and the tasks sent (in \<open>part_001\<close>, the goroutines started).\<close>

definition discovery :: "matcher \<Rightarrow> env \<Rightarrow> string \<Rightarrow> fsnode \<Rightarrow> error option \<times> FileResult list" where
  "discovery glob e desktopPath t = Walk (walkFn glob (excludePatterns e)) desktopPath t"

definition discovery_p000 :: "matcher \<Rightarrow> env \<Rightarrow> string \<Rightarrow> fsnode \<Rightarrow> error option \<times> FileResult list" where
  "discovery_p000 glob e desktopPath t =
     Walk (walkFn_p000 (skipNodeModulesFlag e) glob (excludePatterns e)) desktopPath t"

definition discovery_p001 :: "matcher \<Rightarrow> env \<Rightarrow> string \<Rightarrow> fsnode \<Rightarrow> error option \<times> FileResult list" where
  "discovery_p001 glob e startDir t = Walk (walkFn_p001 glob (excludePatterns_p001 e)) startDir t"

text \<open>\<open>main\<close> of \<open>main.go\<close>. The file system is given by what is found at a root path.
  After a walk error the message is printed, the channel is closed, the workers drain it
  and the report is printed.\<close>

definition main_go :: "matcher \<Rightarrow> env \<Rightarrow> (string \<Rightarrow> fsnode) \<Rightarrow> os \<Rightarrow> outcome" where
  "main_go glob e fs os =
     (case homeDir e of
        Inl err \<Rightarrow> Exited 1
      | Inr home \<Rightarrow>
          (let desktopPath = Join home ''Desktop'' in
           case discovery glob e desktopPath (fs desktopPath) of
             (err, tasks) \<Rightarrow> Reported (mkReport err (aggregate os tasks))))"

definition main_p000 :: "matcher \<Rightarrow> env \<Rightarrow> (string \<Rightarrow> fsnode) \<Rightarrow> os \<Rightarrow> outcome" where
  "main_p000 glob e fs os =
     (case homeDir e of
        Inl err \<Rightarrow> Exited 1
      | Inr home \<Rightarrow>
          (let desktopPath = Join home ''Desktop'' in
           case discovery_p000 glob e desktopPath (fs desktopPath) of
             (err, tasks) \<Rightarrow> Reported (mkReport err (aggregate os tasks))))"

text \<open>\<open>main\<close> of \<open>part_001\<close>: a walk error ends the process with status 1.\<close>

definition main_p001 :: "matcher \<Rightarrow> env \<Rightarrow> (string \<Rightarrow> fsnode) \<Rightarrow> os \<Rightarrow> outcome" where
  "main_p001 glob e fs os =
     (case workDir e of
        Inl err \<Rightarrow> Exited 1
      | Inr startDir \<Rightarrow>
          (case discovery_p001 glob e startDir (fs startDir) of
             (Some err, started) \<Rightarrow> Exited 1
           | (None, started) \<Rightarrow> Reported (mkReport None (aggregate_p001 os started))))"

section \<open>Paths, extensions and the aggregator: basic facts\<close>



lemma recordFile_apply:
  "recordFile l n b st =
     st(l \<mapsto> (case st l of
                 None \<Rightarrow> \<lparr>FileCount = 1, LineCount = n, ByteCount = b\<rparr>
               | Some s \<Rightarrow> \<lparr>FileCount = FileCount s + 1, LineCount = LineCount s + n,
                            ByteCount = ByteCount s + b\<rparr>))"
  by (auto simp: recordFile_def addByteCount_def addLineCount_def incFileCount_def
        createEntry_def updEntry_def zeroStats_def split: option.splits)










text \<open>An example of what the operating system answers: every path is a readable file of
  one line.\<close>

definition os_ex :: os where
  "os_ex p = \<lparr>openErr = None, statErr = None, Size = 13,
             content = ''package main'' @ [newline], readErr = None\<rparr>"


section \<open>Classification of dotfiles\<close>



section \<open>The loop over the entries of a directory\<close>

text \<open>The three branches of the loop in \<open>walkNames\<close> differ only in which results stop
  it: an error always does, \<open>SkipDir\<close> only when it comes back from an entry that is not a
  directory.\<close>

fun isFile :: "fsnode \<Rightarrow> bool" where
  "isFile (File n) = True"
| "isFile (Special n) = True"
| "isFile t = False"

fun stops :: "fsnode \<Rightarrow> walkRet \<Rightarrow> bool" where
  "stops c RetNil = False"
| "stops c SkipDir = isFile c"
| "stops c (RetErr e) = True"

lemma walkNames_Cons:
  "walkNames fn p (c # cs) ch =
     (case walk fn (Join p (nodeName c)) c ch of
        (r, ch') \<Rightarrow> if stops c r then (r, ch') else walkNames fn p cs ch')"
  by (cases c) (auto split: prod.splits walkRet.splits)

lemmas walkNames_simps = walkNames.simps(1) walkNames_Cons

declare walkNames.simps(2) [simp del]

lemma scanLoop_os_ex: "scanLoop (NewScanner (os_ex p)) 0 = (1, \<lparr>input = [], ioErr = None, scanErr = None\<rparr>)"
  by (simp add: scanLoop.simps Scan_def NewScanner_def os_ex_def newline_def MaxScanTokenSize_def)

lemma processFile_os_ex: "processFile os_ex p l st = recordFile l 1 13 st"
proof -
  have "openErr (os_ex p) = None" "statErr (os_ex p) = None" "Size (os_ex p) = 13"
    by (simp_all add: os_ex_def)
  then show ?thesis by (simp add: processFile_def scanLoop_os_ex)
qed

lemma Go_a: "classify ''/home/u/Desktop/a.go'' ch = (RetNil, ch @ [\<lparr>path = ''/home/u/Desktop/a.go'', language = ''Go''\<rparr>])"
  by (simp add: classify_def Ext_def Separator_def ToLower_def lowerByte_def languageExtMap_def languageExtList_def)

section \<open>Skipping \<open>node_modules\<close>\<close>

text \<open>\<open>prune\<close> empties every directory named \<open>node_modules\<close>: the tree as it would be
  with nothing inside the skipped directories.\<close>

fun prune :: "fsnode \<Rightarrow> fsnode" where
  "prune (Dir n e cs) = (if n = ''node_modules'' then Dir n e [] else Dir n e (map prune cs))"
| "prune (File n) = File n"
| "prune (Special n) = Special n"
| "prune (Broken n e) = Broken n e"

lemma nodeName_prune [simp]: "nodeName (prune t) = nodeName t"
  by (cases t) auto

lemma isFile_prune [simp]: "isFile (prune t) = isFile t"
  by (cases t) auto

lemma stops_prune [simp]: "stops (prune t) r = stops t r"
  by (cases r) auto

lemma walk_p000_node_modules:
  "walk (walkFn_p000 True glob pats) p (Dir ''node_modules'' e cs) ch =
     (case e of None \<Rightarrow> (SkipDir, ch) | Some err \<Rightarrow> (RetErr err, ch))"
  by (simp add: walkFn_p000_def split: option.splits)

lemma walk_prune:
  "walk (walkFn_p000 True glob pats) p (prune t) ch = walk (walkFn_p000 True glob pats) p t ch"
proof (induction t arbitrary: p ch)
  case (Dir n e cs)
  let ?fn = "walkFn_p000 True glob pats"
  have names: "walkNames ?fn p (map prune cs) ch = walkNames ?fn p cs ch" for ch
    using Dir.IH
  proof (induction cs arbitrary: ch)
    case Nil
    show ?case by simp
  next
    case (Cons c cs)
    have c: "walk ?fn q (prune c) ch' = walk ?fn q c ch'" for q ch'
      using Cons.prems by simp
    have rest: "walkNames ?fn p (map prune cs) ch' = walkNames ?fn p cs ch'" for ch'
      using Cons by simp
    show ?case by (simp add: walkNames_Cons c rest split: prod.splits)
  qed
  show ?case
  proof (cases "n = ''node_modules''")
    case True
    then show ?thesis by (simp add: walk_p000_node_modules del: walk.simps)
  next
    case False
    then show ?thesis by (simp add: names split: prod.splits)
  qed
qed simp_all

lemma Walk_prune:
  "Walk (walkFn_p000 True glob pats) root (prune t) = Walk (walkFn_p000 True glob pats) root t"
  by (simp add: Walk_def walk_prune)

text \<open>An example: a Desktop directory with \<open>a.go\<close> and a \<open>node_modules\<close> directory that
  holds \<open>lib.js\<close>, scanned with the flag set.\<close>

definition e_skip :: env where
  "e_skip = \<lparr>homeDir = Inr ''/home/u'', workDir = Inr ''/home/u/Desktop'', excludeFlag = [],
             sortFlag = [], skipNodeModulesFlag = True, args = []\<rparr>"

definition fs_nm :: "string \<Rightarrow> fsnode" where
  "fs_nm root =
     Dir ''Desktop'' None [File ''a.go'', Dir ''node_modules'' None [File ''lib.js'']]"

text \<open>
  Claim C9. With the \<open>skip-node-modules\<close> flag set, a directory named \<open>node_modules\<close> is
  never descended into: the run of \<open>part_000\<close> gives the same outcome on a tree and on the
  tree with every \<open>node_modules\<close> directory emptied, and in the loop over a directory a
  readable \<open>node_modules\<close> entry, whatever is planted inside it, sends nothing and changes
  nothing for the entries after it.
\<close>

theorem skipped_subtree_never_visited:
  "main_p000 glob (e\<lparr>skipNodeModulesFlag := True\<rparr>) (\<lambda>root. prune (fs root)) os =
     main_p000 glob (e\<lparr>skipNodeModulesFlag := True\<rparr>) fs os \<and>
   walkNames (walkFn_p000 True glob pats) p (Dir ''node_modules'' None planted # cs) ch =
     walkNames (walkFn_p000 True glob pats) p cs ch"
  by (simp add: main_p000_def discovery_p000_def Walk_prune walkNames_Cons
        walk_p000_node_modules Let_def del: walk.simps split: sum.splits)

theorem skipped_subtree_never_visited_witness:
  "main_p000 Match e_skip fs_nm os_ex =
     Reported \<lparr>walkError = None,
               table = [''Go'' \<mapsto> \<lparr>FileCount = 1, LineCount = 1, ByteCount = 13\<rparr>],
               files = 1, lines = 1, bytes = 13\<rparr>"
proof -
  have e: "e_skip\<lparr>skipNodeModulesFlag := True\<rparr> = e_skip" by (simp add: e_skip_def)
  have "main_p000 Match e_skip fs_nm os_ex = main_p000 Match e_skip (\<lambda>root. prune (fs_nm root)) os_ex"
    using skipped_subtree_never_visited [of Match e_skip fs_nm os_ex] by (simp add: e)
  also have "\<dots> = Reported \<lparr>walkError = None,
               table = [''Go'' \<mapsto> \<lparr>FileCount = 1, LineCount = 1, ByteCount = 13\<rparr>],
               files = 1, lines = 1, bytes = 13\<rparr>"
    by (simp add: main_p000_def discovery_p000_def e_skip_def fs_nm_def Join_def Separator_def Walk_def
          walkNames_Cons walkFn_p000_def excludePatterns_def Go_a aggregate_def
          processFile_os_ex recordFile_apply mkReport_def totalFiles_def totalLines_def
          totalSize_def)
  finally show ?thesis .
qed

section \<open>What the walker sends\<close>

text \<open>The three callbacks are instances of one: they differ in the skip test and in the
  exclusion loop.\<close>

definition callback :: "bool \<Rightarrow> (string \<Rightarrow> bool) \<Rightarrow> walkFunc" where
  "callback skip excluded p info err ch =
     (case err of
        Some e \<Rightarrow> (RetErr e, ch)
      | None \<Rightarrow>
          (case info of
             None \<Rightarrow> (RetErr NilDereference, ch)
           | Some i \<Rightarrow>
               if skip \<and> IsDir i \<and> Name i = ''node_modules'' then (SkipDir, ch)
               else if IsDir i then (RetNil, ch)
               else if excluded p then (RetNil, ch)
               else classify p ch))"

lemma walkFn_callback: "walkFn glob pats = callback False (excludeLoop glob pats)"
  by (intro ext) (simp add: walkFn_def callback_def split: option.splits)

lemma walkFn_p000_callback: "walkFn_p000 skip glob pats = callback skip (excludeLoop glob pats)"
  by (intro ext) (simp add: walkFn_p000_def callback_def split: option.splits)

lemma walkFn_p001_callback: "walkFn_p001 glob pats = callback False (excludeLoop_p001 glob pats)"
  by (intro ext) (simp add: walkFn_p001_def callback_def split: option.splits)

text \<open>The error a walk returns: that of the first failing entry in the order of the walk;
  with the skip flag, the entries inside a directory named \<open>node_modules\<close> are not
  looked at.\<close>

fun firstError :: "bool \<Rightarrow> fsnode \<Rightarrow> error option"
and firstErrorList :: "bool \<Rightarrow> fsnode list \<Rightarrow> error option" where
  "firstError skip (File n) = None"
| "firstError skip (Special n) = None"
| "firstError skip (Broken n e) = Some e"
| "firstError skip (Dir n e cs) =
     (case e of
        Some x \<Rightarrow> Some x
      | None \<Rightarrow> if skip \<and> n = ''node_modules'' then None else firstErrorList skip cs)"
| "firstErrorList skip [] = None"
| "firstErrorList skip (c # cs) =
     (case firstError skip c of Some x \<Rightarrow> Some x | None \<Rightarrow> firstErrorList skip cs)"

text \<open>The paths of the entries that are not directories (regular files and others), in
  the order of the walk, up to the first failing entry.\<close>

fun visited :: "bool \<Rightarrow> string \<Rightarrow> fsnode \<Rightarrow> string list"
and visitedList :: "bool \<Rightarrow> string \<Rightarrow> fsnode list \<Rightarrow> string list" where
  "visited skip p (File n) = [p]"
| "visited skip p (Special n) = [p]"
| "visited skip p (Broken n e) = []"
| "visited skip p (Dir n e cs) =
     (if e \<noteq> None \<or> (skip \<and> n = ''node_modules'') then [] else visitedList skip p cs)"
| "visitedList skip p [] = []"
| "visitedList skip p (c # cs) =
     visited skip (Join p (nodeName c)) c @
       (if firstError skip c \<noteq> None then [] else visitedList skip p cs)"

text \<open>The tasks the callback sends for a list of paths of non-directories: none for an
  excluded path or an unknown extension, one otherwise.\<close>

definition tasksFor :: "(string \<Rightarrow> bool) \<Rightarrow> string list \<Rightarrow> FileResult list" where
  "tasksFor excluded ps =
     concat (map (\<lambda>p. if excluded p then [] else snd (classify p [])) ps)"

definition skipped :: "bool \<Rightarrow> fsnode \<Rightarrow> bool" where
  "skipped skip t = (case t of Dir n e cs \<Rightarrow> skip \<and> n = ''node_modules'' | _ \<Rightarrow> False)"

definition retOf :: "bool \<Rightarrow> fsnode \<Rightarrow> walkRet" where
  "retOf skip t =
     (case firstError skip t of
        Some e \<Rightarrow> RetErr e
      | None \<Rightarrow> if skipped skip t then SkipDir else RetNil)"

lemma classify_snd: "classify p ch = (RetNil, ch @ snd (classify p []))"
  by (simp add: classify_def Let_def split: option.splits)

lemma tasksFor_simps [simp]:
  "tasksFor ex [] = []"
  "tasksFor ex (p # ps) = (if ex p then [] else snd (classify p [])) @ tasksFor ex ps"
  "tasksFor ex (ps @ qs) = tasksFor ex ps @ tasksFor ex qs"
  by (simp_all add: tasksFor_def)

lemma callback_dir:
  "callback skip ex p (Some \<lparr>Name = n, IsDir = True\<rparr>) e ch =
     (case e of
        Some x \<Rightarrow> RetErr x
      | None \<Rightarrow> if skip \<and> n = ''node_modules'' then SkipDir else RetNil, ch)"
  by (simp add: callback_def split: option.splits)

lemma callback_file:
  "callback skip ex p (Some \<lparr>Name = n, IsDir = False\<rparr>) None ch =
     (if ex p then (RetNil, ch) else classify p ch)"
  by (simp add: callback_def)

lemma callback_broken: "callback skip ex p None (Some e) ch = (RetErr e, ch)"
  by (simp add: callback_def)

lemma walk_callback:
  "walk (callback skip ex) p t ch = (retOf skip t, ch @ tasksFor ex (visited skip p t))"
  "walkNames (callback skip ex) p cs ch =
     (case firstErrorList skip cs of Some e \<Rightarrow> RetErr e | None \<Rightarrow> RetNil,
      ch @ tasksFor ex (visitedList skip p cs))"
proof (induction skip p t and skip p cs arbitrary: ch and ch rule: visited_visitedList.induct)
  case (1 skip p n)
  show ?case using classify_snd [of p ch]
    by (simp add: callback_file retOf_def skipped_def)
next
  case (2 skip p n)
  show ?case using classify_snd [of p ch]
    by (simp add: callback_file retOf_def skipped_def)
next
  case (3 skip p n e)
  show ?case by (simp add: callback_broken retOf_def)
next
  case (4 skip p n e cs)
  show ?case
  proof (cases "e \<noteq> None \<or> (skip \<and> n = ''node_modules'')")
    case True
    then show ?thesis by (auto simp: callback_dir retOf_def skipped_def split: option.splits)
  next
    case False
    then show ?thesis using 4 [OF False]
      by (auto simp: callback_dir retOf_def skipped_def split: option.splits)
  qed
next
  case (5 skip p)
  show ?case by simp
next
  case (6 skip p c cs)
  note w = "6.IH"(1) [of ch]
  show ?case
  proof (cases "firstError skip c")
    case None
    have nstop: "\<not> stops c (retOf skip c)"
      using None by (cases c) (auto simp: retOf_def skipped_def)
    show ?thesis using None nstop w "6.IH"(2)
      by (simp add: walkNames_Cons)
  next
    case (Some e)
    then show ?thesis using w by (simp add: walkNames_Cons retOf_def)
  qed
qed

lemma Walk_callback:
  "Walk (callback skip ex) root t = (firstError skip t, tasksFor ex (visited skip root t))"
  by (simp add: Walk_def walk_callback retOf_def split: option.splits)

text \<open>All entries below a path that are not directories (regular files and others), in
  the order of the walk; with the skip flag, those outside the directories named
  \<open>node_modules\<close>.\<close>

fun allFiles :: "bool \<Rightarrow> string \<Rightarrow> fsnode \<Rightarrow> string list"
and allFilesList :: "bool \<Rightarrow> string \<Rightarrow> fsnode list \<Rightarrow> string list" where
  "allFiles skip p (File n) = [p]"
| "allFiles skip p (Special n) = [p]"
| "allFiles skip p (Broken n e) = []"
| "allFiles skip p (Dir n e cs) =
     (if e \<noteq> None \<or> (skip \<and> n = ''node_modules'') then [] else allFilesList skip p cs)"
| "allFilesList skip p [] = []"
| "allFilesList skip p (c # cs) =
     allFiles skip (Join p (nodeName c)) c @ allFilesList skip p cs"

lemma visited_all:
  "firstError skip t = None \<Longrightarrow> visited skip p t = allFiles skip p t"
  "firstErrorList skip cs = None \<Longrightarrow> visitedList skip p cs = allFilesList skip p cs"
  by (induction skip p t and skip p cs rule: visited_visitedList.induct)
     (auto split: option.splits if_splits)

lemma visited_subset:
  "set (visited skip p t) \<subseteq> set (allFiles skip p t)"
  "set (visitedList skip p cs) \<subseteq> set (allFilesList skip p cs)"
  by (induction skip p t and skip p cs rule: visited_visitedList.induct) auto

lemma tasksFor_comprehension:
  "tasksFor ex ps =
     [\<lparr>path = p, language = the (languageExtMap (ToLower (Ext p)))\<rparr>.
        p \<leftarrow> ps, \<not> ex p, languageExtMap (ToLower (Ext p)) \<noteq> None]"
  by (induction ps) (auto simp: classify_def Let_def)

lemma path_tasksFor: "set (map path (tasksFor ex ps)) \<subseteq> set ps"
  by (induction ps) (auto simp: classify_def Let_def split: option.splits)

lemma discovery_eq:
  "discovery glob e root t =
     (firstError False t, tasksFor (excludeLoop glob (excludePatterns e)) (visited False root t))"
  by (simp add: discovery_def walkFn_callback Walk_callback)

lemma discovery_p000_eq:
  "discovery_p000 glob e root t =
     (firstError (skipNodeModulesFlag e) t,
      tasksFor (excludeLoop glob (excludePatterns e)) (visited (skipNodeModulesFlag e) root t))"
  by (simp add: discovery_p000_def walkFn_p000_callback Walk_callback)

lemma discovery_p001_eq:
  "discovery_p001 glob e root t =
     (firstError False t,
      tasksFor (excludeLoop_p001 glob (excludePatterns_p001 e)) (visited False root t))"
  by (simp add: discovery_p001_def walkFn_p001_callback Walk_callback)

lemma firstErrorList_abort:
  "firstError skip c = Some err \<Longrightarrow>
   firstErrorList skip (xs @ c # ys) = firstErrorList skip (xs @ [c])"
  by (induction xs) (simp_all split: option.splits)

lemma visitedList_abort:
  "firstError skip c = Some err \<Longrightarrow>
   visitedList skip p (xs @ c # ys) = visitedList skip p (xs @ [c])"
  by (induction xs) simp_all

lemma walkNames_abort:
  "firstError skip c = Some err \<Longrightarrow>
   walkNames (callback skip ex) p (pre @ c # post) ch = walkNames (callback skip ex) p (pre @ [c]) ch"
  using firstErrorList_abort [of skip c err pre post] visitedList_abort [of skip c err p pre post]
  by (simp add: walk_callback)

section \<open>Traversal errors\<close>

text \<open>An example: no flags, and a Desktop directory with \<open>a.go\<close>, a directory \<open>b\<close> that
  cannot be read, and \<open>c.py\<close>.\<close>

definition e_plain :: env where
  "e_plain = \<lparr>homeDir = Inr ''/home/u'', workDir = Inr ''/home/u/Desktop'', excludeFlag = [],
              sortFlag = [], skipNodeModulesFlag = False, args = []\<rparr>"

definition fs_err :: "string \<Rightarrow> fsnode" where
  "fs_err root =
     Dir ''Desktop'' None
       [File ''a.go'', Dir ''b'' (Some (PathError ''/home/u/Desktop/b'')) [], File ''c.py'']"

lemma Join_Desktop: "Join ''/home/u'' ''Desktop'' = ''/home/u/Desktop''"
  by (simp add: Join_def Separator_def)

lemma firstError_fs_err:
  "firstError skip (fs_err root) = Some (PathError ''/home/u/Desktop/b'')"
  by (simp add: fs_err_def)

lemma excludePatterns_e_plain: "excludePatterns e_plain = []" "excludePatterns_p001 e_plain = []"
  by (simp_all add: excludePatterns_def excludePatterns_p001_def e_plain_def)

lemma tasks_fs_err:
  "tasksFor (excludeLoop glob []) (visited False ''/home/u/Desktop'' (fs_err root)) =
     [\<lparr>path = ''/home/u/Desktop/a.go'', language = ''Go''\<rparr>]"
  by (simp add: fs_err_def Join_def Separator_def Go_a)

lemma aggregate_one_os_ex:
  "aggregate os_ex [\<lparr>path = p, language = l\<rparr>] =
     [l \<mapsto> \<lparr>FileCount = 1, LineCount = 1, ByteCount = 13\<rparr>]"
  by (simp add: aggregate_def processFile_os_ex recordFile_apply)

lemma mkReport_one:
  "mkReport err [l \<mapsto> \<lparr>FileCount = a, LineCount = b, ByteCount = c\<rparr>] =
     \<lparr>walkError = err, table = [l \<mapsto> \<lparr>FileCount = a, LineCount = b, ByteCount = c\<rparr>],
      files = a, lines = b, bytes = c\<rparr>"
  by (simp add: mkReport_def totalFiles_def totalLines_def totalSize_def)

lemma main_go_eq:
  "homeDir e = Inr home \<Longrightarrow>
   main_go glob e fs os =
     Reported (mkReport (firstError False (fs (Join home ''Desktop'')))
       (aggregate os (tasksFor (excludeLoop glob (excludePatterns e))
          (visited False (Join home ''Desktop'') (fs (Join home ''Desktop''))))))"
  by (simp add: main_go_def discovery_eq Let_def)

lemma main_p000_eq:
  "homeDir e = Inr home \<Longrightarrow>
   main_p000 glob e fs os =
     Reported (mkReport (firstError (skipNodeModulesFlag e) (fs (Join home ''Desktop'')))
       (aggregate os (tasksFor (excludeLoop glob (excludePatterns e))
          (visited (skipNodeModulesFlag e) (Join home ''Desktop'') (fs (Join home ''Desktop''))))))"
  by (simp add: main_p000_def discovery_p000_eq Let_def)

lemma main_p001_error:
  "workDir e = Inr dir \<Longrightarrow> firstError False (fs dir) = Some err \<Longrightarrow>
   main_p001 glob e fs os = Exited 1"
  by (simp add: main_p001_def discovery_p001_eq)

lemma main_go_fs_err:
  "main_go Match e_plain fs_err os_ex =
     Reported \<lparr>walkError = Some (PathError ''/home/u/Desktop/b''),
               table = [''Go'' \<mapsto> \<lparr>FileCount = 1, LineCount = 1, ByteCount = 13\<rparr>],
               files = 1, lines = 1, bytes = 13\<rparr>"
proof -
  have h: "homeDir e_plain = Inr ''/home/u''" by (simp add: e_plain_def)
  show ?thesis
    by (simp add: main_go_eq [OF h] Join_Desktop firstError_fs_err excludePatterns_e_plain
          tasks_fs_err aggregate_one_os_ex mkReport_one)
qed

text \<open>
  Claim C1, as stated, fails on \<open>main.go\<close>: the walk stops at the unreadable directory
  \<open>b\<close>, and the report is printed all the same, with the file sent before the error.
\<close>

theorem walk_error_report_counterexample:
  "main_go Match e_plain fs_err os_ex =
     Reported \<lparr>walkError = Some (PathError ''/home/u/Desktop/b''),
               table = [''Go'' \<mapsto> \<lparr>FileCount = 1, LineCount = 1, ByteCount = 13\<rparr>],
               files = 1, lines = 1, bytes = 13\<rparr>"
  by (rule main_go_fs_err)

text \<open>
  Claim C1, amended. An error on an entry aborts the walk: in the loop over a directory
  the entries after the failing one make no difference, and \<open>filepath.Walk\<close> returns the
  error. \<open>main.go\<close> and \<open>part_000\<close> print it and still print the report, aggregated
  over the files visited before the failing entry; \<open>part_001\<close> exits with status 1 and
  prints no report.
\<close>

theorem walk_error_aborts_walk:
  "(homeDir e = Inr home \<and> firstError False (fs (Join home ''Desktop'')) = Some err \<longrightarrow>
      main_go glob e fs os =
        Reported (mkReport (Some err)
          (aggregate os (tasksFor (excludeLoop glob (excludePatterns e))
             (visited False (Join home ''Desktop'') (fs (Join home ''Desktop''))))))) \<and>
   (homeDir e = Inr home \<and>
      firstError (skipNodeModulesFlag e) (fs (Join home ''Desktop'')) = Some err \<longrightarrow>
      main_p000 glob e fs os =
        Reported (mkReport (Some err)
          (aggregate os (tasksFor (excludeLoop glob (excludePatterns e))
             (visited (skipNodeModulesFlag e) (Join home ''Desktop'')
                (fs (Join home ''Desktop''))))))) \<and>
   (workDir e = Inr dir \<and> firstError False (fs dir) = Some err \<longrightarrow>
      main_p001 glob e fs os = Exited 1) \<and>
   (firstError False c = Some err \<longrightarrow>
      walkNames (walkFn glob pats) p (pre @ c # post) ch =
        walkNames (walkFn glob pats) p (pre @ [c]) ch \<and>
      walkNames (walkFn_p001 glob pats) p (pre @ c # post) ch =
        walkNames (walkFn_p001 glob pats) p (pre @ [c]) ch) \<and>
   (firstError skip c = Some err \<longrightarrow>
      walkNames (walkFn_p000 skip glob pats) p (pre @ c # post) ch =
        walkNames (walkFn_p000 skip glob pats) p (pre @ [c]) ch)"
proof (intro conjI impI)
  assume "homeDir e = Inr home \<and> firstError False (fs (Join home ''Desktop'')) = Some err"
  then show "main_go glob e fs os =
        Reported (mkReport (Some err)
          (aggregate os (tasksFor (excludeLoop glob (excludePatterns e))
             (visited False (Join home ''Desktop'') (fs (Join home ''Desktop''))))))"
    by (simp add: main_go_eq)
next
  assume "homeDir e = Inr home \<and>
      firstError (skipNodeModulesFlag e) (fs (Join home ''Desktop'')) = Some err"
  then show "main_p000 glob e fs os =
        Reported (mkReport (Some err)
          (aggregate os (tasksFor (excludeLoop glob (excludePatterns e))
             (visited (skipNodeModulesFlag e) (Join home ''Desktop'')
                (fs (Join home ''Desktop''))))))"
    by (simp add: main_p000_eq)
next
  assume "workDir e = Inr dir \<and> firstError False (fs dir) = Some err"
  then show "main_p001 glob e fs os = Exited 1"
    by (simp add: main_p001_error)
next
  assume c: "firstError False c = Some err"
  show "walkNames (walkFn glob pats) p (pre @ c # post) ch =
        walkNames (walkFn glob pats) p (pre @ [c]) ch"
    unfolding walkFn_callback by (rule walkNames_abort [OF c])
  show "walkNames (walkFn_p001 glob pats) p (pre @ c # post) ch =
        walkNames (walkFn_p001 glob pats) p (pre @ [c]) ch"
    unfolding walkFn_p001_callback by (rule walkNames_abort [OF c])
next
  assume c: "firstError skip c = Some err"
  show "walkNames (walkFn_p000 skip glob pats) p (pre @ c # post) ch =
        walkNames (walkFn_p000 skip glob pats) p (pre @ [c]) ch"
    unfolding walkFn_p000_callback by (rule walkNames_abort [OF c])
qed

theorem walk_error_aborts_walk_witness:
  "homeDir e_plain = Inr ''/home/u'' \<and>
   firstError False (fs_err (Join ''/home/u'' ''Desktop'')) = Some (PathError ''/home/u/Desktop/b'') \<and>
   main_go Match e_plain fs_err os_ex =
     Reported (mkReport (Some (PathError ''/home/u/Desktop/b''))
       (aggregate os_ex [\<lparr>path = ''/home/u/Desktop/a.go'', language = ''Go''\<rparr>])) \<and>
   workDir e_plain = Inr ''/home/u/Desktop'' \<and>
   main_p001 Match e_plain fs_err os_ex = Exited 1"
proof -
  have h: "homeDir e_plain = Inr ''/home/u''" "workDir e_plain = Inr ''/home/u/Desktop''"
    "skipNodeModulesFlag e_plain = False"
    by (simp_all add: e_plain_def)
  note t = walk_error_aborts_walk [of e_plain "''/home/u''" fs_err "PathError ''/home/u/Desktop/b''"
      Match os_ex "''/home/u/Desktop''"]
  from t h show ?thesis
    by (simp add: firstError_fs_err excludePatterns_e_plain tasks_fs_err Join_Desktop)
qed

section \<open>Malformed exclusion patterns\<close>

lemma excludeLoop_iff:
  "excludeLoop glob pats p = (\<exists>pat\<in>set pats. glob (TrimSpace pat) (Base p) \<noteq> Inr False)"
  by (induction pats) (auto split: sum.splits)

lemma excludeLoop_p001_iff:
  "excludeLoop_p001 glob pats p = (\<exists>pat\<in>set pats. glob pat (Base p) = Inr True)"
  by (induction pats) (auto split: sum.splits)

lemma excludeLoop_p001_filter:
  "excludeLoop_p001 glob pats p =
     excludeLoop_p001 glob (filter (\<lambda>pat. \<not> isl (glob pat (Base p))) pats) p"
  by (induction pats) (auto split: sum.splits)

lemma callback_file_RetNil:
  "fst (callback skip ex p (Some \<lparr>Name = n, IsDir = False\<rparr>) None ch) = RetNil"
  by (simp add: callback_file classify_def Let_def split: option.splits)

lemma Match_bracket: "Match ''['' ''a.go'' = Inl ErrBadPattern"
  by (simp add: Match.simps scanChunk_def matchChunk_def matchChunkLoop.simps classLoop.simps
        getEsc_def backslash_def)

lemma Match_py_a_go: "Match ''*.py'' ''a.go'' = Inr False"
  by (simp add: Match.simps scanChunk_def matchChunk_def matchChunkLoop.simps
        Separator_def backslash_def)

lemma Base_d_a_go: "Base ''/d/a.go'' = ''a.go''"
  by (simp add: Base_def Separator_def)

lemma TrimSpace_ex: "TrimSpace ''['' = ''[''" "TrimSpace ''*.py'' = ''*.py''"
  by (simp_all add: TrimSpace_def isSpace_def)

lemma Go_d_a: "classify ''/d/a.go'' ch = (RetNil, ch @ [\<lparr>path = ''/d/a.go'', language = ''Go''\<rparr>])"
  by (simp add: classify_def Ext_def Separator_def ToLower_def lowerByte_def languageExtMap_def
        languageExtList_def)

lemma Join_d: "Join ''/d'' ''a.go'' = ''/d/a.go''"
  by (simp add: Join_def Separator_def)

lemma malformed_drops:
  "walkNames (walkFn Match [''['']) ''/d'' [File ''a.go''] [] = (RetNil, [])"
  by (simp add: walkNames_Cons Join_d walkFn_def Base_d_a_go TrimSpace_ex Match_bracket)

lemma no_pattern_keeps:
  "walkNames (walkFn Match []) ''/d'' [File ''a.go''] [] =
     (RetNil, [\<lparr>path = ''/d/a.go'', language = ''Go''\<rparr>])"
  by (simp add: walkNames_Cons Join_d walkFn_def Go_d_a)

text \<open>
  Claim C2, as stated, fails on \<open>main.go\<close>: with the malformed pattern \<open>[\<close> the file
  \<open>a.go\<close> is dropped, while without the pattern it is sent as a Go file.
\<close>

theorem malformed_pattern_counterexample:
  "Match ''['' (Base ''/d/a.go'') = Inl ErrBadPattern \<and>
   walkNames (walkFn Match [''['']) ''/d'' [File ''a.go''] [] = (RetNil, []) \<and>
   walkNames (walkFn Match []) ''/d'' [File ''a.go''] [] =
     (RetNil, [\<lparr>path = ''/d/a.go'', language = ''Go''\<rparr>])"
  by (simp add: Base_d_a_go Match_bracket malformed_drops no_pattern_keeps)

text \<open>
  Claim C2, amended. A pattern the matcher rejects never aborts the traversal: on a file
  every callback returns nil. In \<open>part_001\<close> the file is treated as if every pattern
  rejected for its base name were absent. In \<open>main.go\<close> and \<open>part_000\<close> the file is dropped
  exactly when some pattern matches its base name or is rejected for it.
\<close>

theorem malformed_pattern_handling:
  "excludeLoop_p001 glob pats p =
     excludeLoop_p001 glob (filter (\<lambda>pat. \<not> isl (glob pat (Base p))) pats) p \<and>
   excludeLoop glob pats p = (\<exists>pat\<in>set pats. glob (TrimSpace pat) (Base p) \<noteq> Inr False) \<and>
   fst (walkFn glob pats p (Some \<lparr>Name = n, IsDir = False\<rparr>) None ch) = RetNil \<and>
   fst (walkFn_p000 skip glob pats p (Some \<lparr>Name = n, IsDir = False\<rparr>) None ch) = RetNil \<and>
   fst (walkFn_p001 glob pats p (Some \<lparr>Name = n, IsDir = False\<rparr>) None ch) = RetNil"
  using excludeLoop_p001_filter [of glob pats p] excludeLoop_iff [of glob pats p]
  by (simp add: walkFn_callback walkFn_p000_callback walkFn_p001_callback callback_file_RetNil)

theorem malformed_pattern_handling_witness:
  "excludeLoop_p001 Match [''*.py'', ''[''] ''/d/a.go'' =
     excludeLoop_p001 Match [''*.py''] ''/d/a.go'' \<and>
   \<not> excludeLoop_p001 Match [''*.py'', ''[''] ''/d/a.go'' \<and>
   Match (TrimSpace ''['') (Base ''/d/a.go'') \<noteq> Inr False \<and>
   excludeLoop Match [''*.py'', ''[''] ''/d/a.go''"
proof -
  note t = malformed_pattern_handling [of Match "[''*.py'', ''['']" "''/d/a.go''"]
  have m: "Match (TrimSpace ''['') (Base ''/d/a.go'') \<noteq> Inr False"
    by (simp add: Base_d_a_go TrimSpace_ex Match_bracket)
  from t have 1: "excludeLoop_p001 Match [''*.py'', ''[''] ''/d/a.go'' =
     excludeLoop_p001 Match [''*.py''] ''/d/a.go''"
    by (simp add: Base_d_a_go Match_bracket Match_py_a_go)
  have 2: "\<not> excludeLoop_p001 Match [''*.py''] ''/d/a.go''"
    by (simp add: Base_d_a_go Match_py_a_go)
  from t m have 3: "excludeLoop Match [''*.py'', ''[''] ''/d/a.go''" by auto
  from 1 2 3 m show ?thesis by simp
qed

section \<open>One task per file\<close>

text \<open>The regular files below a path, in the order of the walk; with the skip flag, those
  outside the directories named \<open>node_modules\<close>.\<close>

fun regularFiles :: "bool \<Rightarrow> string \<Rightarrow> fsnode \<Rightarrow> string list"
and regularFilesList :: "bool \<Rightarrow> string \<Rightarrow> fsnode list \<Rightarrow> string list" where
  "regularFiles skip p (File n) = [p]"
| "regularFiles skip p (Special n) = []"
| "regularFiles skip p (Broken n e) = []"
| "regularFiles skip p (Dir n e cs) =
     (if e \<noteq> None \<or> (skip \<and> n = ''node_modules'') then [] else regularFilesList skip p cs)"
| "regularFilesList skip p [] = []"
| "regularFilesList skip p (c # cs) =
     regularFiles skip (Join p (nodeName c)) c @ regularFilesList skip p cs"

text \<open>The spec's words: one task per file whose extension maps to a known language and
  which is not excluded.\<close>

definition specTasks :: "(string \<Rightarrow> bool) \<Rightarrow> string list \<Rightarrow> FileResult list" where
  "specTasks excluded ps =
     [\<lparr>path = p, language = the (languageExtMap (ToLower (Ext p)))\<rparr>.
        p \<leftarrow> ps, \<not> excluded p, languageExtMap (ToLower (Ext p)) \<noteq> None]"

text \<open>An example: the files whose names begin with \<open>e\<close> are excluded, and the Desktop
  directory holds \<open>a.go\<close>, a symbolic link \<open>l.py\<close>, \<open>c.txt\<close> and a directory \<open>sub\<close> with
  \<open>d.py\<close> and \<open>e.go\<close>.\<close>

definition e_ex :: env where
  "e_ex = e_plain\<lparr>excludeFlag := ''e*''\<rparr>"

definition fs_tree :: fsnode where
  "fs_tree =
     Dir ''Desktop'' None
       [File ''a.go'', Special ''l.py'', File ''c.txt'',
        Dir ''sub'' None [File ''d.py'', File ''e.go'']]"

lemma regularFiles_subset:
  "set (regularFiles skip p t) \<subseteq> set (allFiles skip p t)"
  "set (regularFilesList skip p cs) \<subseteq> set (allFilesList skip p cs)"
  by (induction skip p t and skip p cs rule: regularFiles_regularFilesList.induct) auto

lemma tasksFor_specTasks: "tasksFor ex ps = specTasks ex ps"
  by (simp add: specTasks_def tasksFor_comprehension)

lemma filter_path_specTasks:
  "filter (\<lambda>x. path x = p) (specTasks ex ps) = specTasks ex (filter (\<lambda>q. q = p) ps)"
  by (induction ps) (auto simp: specTasks_def)

lemma filter_eq_distinct: "distinct ps \<Longrightarrow> p \<in> set ps \<Longrightarrow> filter (\<lambda>q. q = p) ps = [p]"
proof (induction ps)
  case Nil
  then show ?case by simp
next
  case (Cons a ps)
  show ?case
  proof (cases "a = p")
    case True
    with Cons.prems have "p \<notin> set ps" by simp
    then have "filter (\<lambda>q. q = p) ps = []" by (auto simp: filter_empty_conv)
    with True show ?thesis by simp
  next
    case False
    with Cons show ?thesis by simp
  qed
qed

lemma one_task:
  assumes "distinct ps" "p \<in> set ps" "\<not> ex p" "languageExtMap (ToLower (Ext p)) = Some lang"
  shows "filter (\<lambda>x. path x = p) (specTasks ex ps) = [\<lparr>path = p, language = lang\<rparr>]"
  using assms(3,4)
  by (simp add: filter_path_specTasks filter_eq_distinct [OF assms(1,2)]) (simp add: specTasks_def)

lemma task_props:
  "x \<in> set (tasksFor ex ps) \<Longrightarrow>
   path x \<in> set ps \<and> \<not> ex (path x) \<and> languageExtMap (ToLower (Ext (path x))) = Some (language x)"
  by (auto simp: tasksFor_comprehension)

lemma Walk_sent:
  assumes "x \<in> set (snd (Walk (callback skip ex) root t))"
  shows "path x \<in> set (allFiles skip root t) \<and> \<not> ex (path x) \<and>
         languageExtMap (ToLower (Ext (path x))) = Some (language x)"
  using task_props [of x ex "visited skip root t"] assms visited_subset(1) [of skip root t]
  by (auto simp: Walk_callback)

lemma Walk_complete:
  "firstError skip t = None \<Longrightarrow>
   Walk (callback skip ex) root t = (None, specTasks ex (allFiles skip root t))"
  by (simp add: Walk_callback visited_all tasksFor_specTasks)

lemma Walk_one_task:
  assumes "firstError skip t = None" "distinct (allFiles skip root t)"
    "p \<in> set (regularFiles skip root t)" "languageExtMap (ToLower (Ext p)) = Some lang" "\<not> ex p"
  shows "filter (\<lambda>x. path x = p) (snd (Walk (callback skip ex) root t)) =
           [\<lparr>path = p, language = lang\<rparr>]"
proof -
  have "p \<in> set (allFiles skip root t)" using assms(3) regularFiles_subset(1) by blast
  from one_task [where ex = ex, OF assms(2) this assms(5,4)] show ?thesis
    by (simp add: Walk_complete [OF assms(1)])
qed

lemma discovery_callback:
  "discovery glob e root t = Walk (callback False (excludeLoop glob (excludePatterns e))) root t"
  "discovery_p000 glob e root t =
     Walk (callback (skipNodeModulesFlag e) (excludeLoop glob (excludePatterns e))) root t"
  "discovery_p001 glob e root t =
     Walk (callback False (excludeLoop_p001 glob (excludePatterns_p001 e))) root t"
  by (simp_all add: discovery_def discovery_p000_def discovery_p001_def walkFn_callback
        walkFn_p000_callback walkFn_p001_callback)

lemma classify_fs_err:
  "languageExtMap (ToLower (Ext ''/home/u/Desktop/c.py'')) = Some ''Python''"
  by (simp add: Ext_def Separator_def ToLower_def lowerByte_def languageExtMap_def
        languageExtList_def)

text \<open>
  Claim C8, as stated, fails when the walk meets an error. In the Desktop directory with
  \<open>a.go\<close>, the unreadable directory \<open>b\<close> and \<open>c.py\<close>, walked from the root
  \<open>/home/u/Desktop\<close> without exclusion patterns, \<open>c.py\<close> is a regular file under the root
  with a known extension and not excluded, and no task is sent for it: the walk stops at
  \<open>b\<close>.
\<close>

theorem walk_error_drops_file_counterexample:
  "''/home/u/Desktop/c.py'' \<in> set (regularFiles False ''/home/u/Desktop'' (fs_err ''/home/u/Desktop'')) \<and>
   languageExtMap (ToLower (Ext ''/home/u/Desktop/c.py'')) = Some ''Python'' \<and>
   \<not> excludeLoop Match (excludePatterns e_plain) ''/home/u/Desktop/c.py'' \<and>
   discovery Match e_plain ''/home/u/Desktop'' (fs_err ''/home/u/Desktop'') =
     (Some (PathError ''/home/u/Desktop/b''),
      [\<lparr>path = ''/home/u/Desktop/a.go'', language = ''Go''\<rparr>])"
  by (simp add: discovery_eq firstError_fs_err excludePatterns_e_plain tasks_fs_err classify_fs_err)
     (simp add: fs_err_def Join_def Separator_def)

text \<open>
  Claim C8, amended. The walk is given its root path, and in \<open>main.go\<close>, \<open>part_000\<close> and
  \<open>part_001\<close> alike every task it sends is for an entry below that root that is not a
  directory (with the skip flag of \<open>part_000\<close>, one outside the directories named
  \<open>node_modules\<close>), that no pattern excludes and whose lowercased extension maps to the
  task's language. When the walk meets no error, the tasks sent are exactly these, one for
  each such entry in the order of the walk; so, the paths of the entries being distinct,
  exactly one task is sent for every regular file under the root whose extension maps to a
  known language and which is not excluded.
\<close>

theorem walker_one_task_per_regular_file:
  fixes glob e
  defines "ex \<equiv> excludeLoop glob (excludePatterns e)"
    and "ex1 \<equiv> excludeLoop_p001 glob (excludePatterns_p001 e)"
    and "skip \<equiv> skipNodeModulesFlag e"
  shows
   "(\<forall>x\<in>set (snd (discovery glob e root t)).
       path x \<in> set (allFiles False root t) \<and> \<not> ex (path x) \<and>
       languageExtMap (ToLower (Ext (path x))) = Some (language x)) \<and>
    (\<forall>x\<in>set (snd (discovery_p000 glob e root t)).
       path x \<in> set (allFiles skip root t) \<and> \<not> ex (path x) \<and>
       languageExtMap (ToLower (Ext (path x))) = Some (language x)) \<and>
    (\<forall>x\<in>set (snd (discovery_p001 glob e root t)).
       path x \<in> set (allFiles False root t) \<and> \<not> ex1 (path x) \<and>
       languageExtMap (ToLower (Ext (path x))) = Some (language x)) \<and>
    (firstError False t = None \<longrightarrow>
       discovery glob e root t = (None, specTasks ex (allFiles False root t)) \<and>
       discovery_p001 glob e root t = (None, specTasks ex1 (allFiles False root t))) \<and>
    (firstError skip t = None \<longrightarrow>
       discovery_p000 glob e root t = (None, specTasks ex (allFiles skip root t))) \<and>
    (firstError False t = None \<and> distinct (allFiles False root t) \<and>
     p \<in> set (regularFiles False root t) \<and> languageExtMap (ToLower (Ext p)) = Some lang \<longrightarrow>
       (\<not> ex p \<longrightarrow>
          filter (\<lambda>x. path x = p) (snd (discovery glob e root t)) =
            [\<lparr>path = p, language = lang\<rparr>]) \<and>
       (\<not> ex1 p \<longrightarrow>
          filter (\<lambda>x. path x = p) (snd (discovery_p001 glob e root t)) =
            [\<lparr>path = p, language = lang\<rparr>])) \<and>
    (firstError skip t = None \<and> distinct (allFiles skip root t) \<and>
     p \<in> set (regularFiles skip root t) \<and> languageExtMap (ToLower (Ext p)) = Some lang \<and>
     \<not> ex p \<longrightarrow>
       filter (\<lambda>x. path x = p) (snd (discovery_p000 glob e root t)) =
         [\<lparr>path = p, language = lang\<rparr>])"
  unfolding discovery_callback ex_def ex1_def skip_def
  using Walk_sent Walk_complete Walk_one_task by (intro conjI ballI impI; blast)

lemma Match_e:
  "Match ''e*'' ''a.go'' = Inr False"
  "Match ''e*'' ''l.py'' = Inr False"
  "Match ''e*'' ''c.txt'' = Inr False"
  "Match ''e*'' ''d.py'' = Inr False"
  "Match ''e*'' ''e.go'' = Inr True"
  by (simp_all add: Match.simps scanChunk_def matchChunk_def matchChunkLoop.simps
        Separator_def backslash_def)

lemma excludePatterns_e_ex: "excludePatterns e_ex = [''e*'']"
  by (simp add: excludePatterns_def e_ex_def e_plain_def)

lemma TrimSpace_e: "TrimSpace ''e*'' = ''e*''"
  by (simp add: TrimSpace_def isSpace_def)

lemma allFiles_fs_tree:
  "allFiles False ''/home/u/Desktop'' fs_tree =
     [''/home/u/Desktop/a.go'', ''/home/u/Desktop/l.py'', ''/home/u/Desktop/c.txt'',
      ''/home/u/Desktop/sub/d.py'', ''/home/u/Desktop/sub/e.go'']"
  "regularFiles False ''/home/u/Desktop'' fs_tree =
     [''/home/u/Desktop/a.go'', ''/home/u/Desktop/c.txt'',
      ''/home/u/Desktop/sub/d.py'', ''/home/u/Desktop/sub/e.go'']"
  "firstError False fs_tree = None"
  by (simp_all add: fs_tree_def Join_def Separator_def)

lemma Base_fs_tree:
  "Base ''/home/u/Desktop/a.go'' = ''a.go''"
  "Base ''/home/u/Desktop/l.py'' = ''l.py''"
  "Base ''/home/u/Desktop/c.txt'' = ''c.txt''"
  "Base ''/home/u/Desktop/sub/d.py'' = ''d.py''"
  "Base ''/home/u/Desktop/sub/e.go'' = ''e.go''"
  by (simp_all add: Base_def Separator_def)

lemma ext_fs_tree:
  "languageExtMap (ToLower (Ext ''/home/u/Desktop/a.go'')) = Some ''Go''"
  "languageExtMap (ToLower (Ext ''/home/u/Desktop/l.py'')) = Some ''Python''"
  "languageExtMap (ToLower (Ext ''/home/u/Desktop/c.txt'')) = None"
  "languageExtMap (ToLower (Ext ''/home/u/Desktop/sub/d.py'')) = Some ''Python''"
  "languageExtMap (ToLower (Ext ''/home/u/Desktop/sub/e.go'')) = Some ''Go''"
  by (simp_all add: Ext_def Separator_def ToLower_def lowerByte_def languageExtMap_def
        languageExtList_def)

lemma specTasks_fs_tree:
  "specTasks (excludeLoop Match [''e*''])
     [''/home/u/Desktop/a.go'', ''/home/u/Desktop/l.py'', ''/home/u/Desktop/c.txt'',
      ''/home/u/Desktop/sub/d.py'', ''/home/u/Desktop/sub/e.go''] =
   [\<lparr>path = ''/home/u/Desktop/a.go'', language = ''Go''\<rparr>,
    \<lparr>path = ''/home/u/Desktop/l.py'', language = ''Python''\<rparr>,
    \<lparr>path = ''/home/u/Desktop/sub/d.py'', language = ''Python''\<rparr>]"
  by (simp add: specTasks_def Base_fs_tree TrimSpace_e Match_e ext_fs_tree)

theorem walker_one_task_per_regular_file_witness:
  "firstError False fs_tree = None \<and>
   distinct (allFiles False ''/home/u/Desktop'' fs_tree) \<and>
   ''/home/u/Desktop/sub/d.py'' \<in> set (regularFiles False ''/home/u/Desktop'' fs_tree) \<and>
   languageExtMap (ToLower (Ext ''/home/u/Desktop/sub/d.py'')) = Some ''Python'' \<and>
   \<not> excludeLoop Match (excludePatterns e_ex) ''/home/u/Desktop/sub/d.py'' \<and>
   discovery Match e_ex ''/home/u/Desktop'' fs_tree =
     (None, [\<lparr>path = ''/home/u/Desktop/a.go'', language = ''Go''\<rparr>,
             \<lparr>path = ''/home/u/Desktop/l.py'', language = ''Python''\<rparr>,
             \<lparr>path = ''/home/u/Desktop/sub/d.py'', language = ''Python''\<rparr>]) \<and>
   filter (\<lambda>x. path x = ''/home/u/Desktop/sub/d.py'')
     (snd (discovery Match e_ex ''/home/u/Desktop'' fs_tree)) =
     [\<lparr>path = ''/home/u/Desktop/sub/d.py'', language = ''Python''\<rparr>]"
proof -
  have d: "distinct (allFiles False ''/home/u/Desktop'' fs_tree)"
    by (simp add: allFiles_fs_tree)
  have r: "''/home/u/Desktop/sub/d.py'' \<in> set (regularFiles False ''/home/u/Desktop'' fs_tree)"
    by (simp add: allFiles_fs_tree)
  have x: "\<not> excludeLoop Match (excludePatterns e_ex) ''/home/u/Desktop/sub/d.py''"
    by (simp add: excludePatterns_e_ex Base_fs_tree TrimSpace_e Match_e)
  note t = walker_one_task_per_regular_file [of Match e_ex "''/home/u/Desktop''" fs_tree
      "''/home/u/Desktop/sub/d.py''" "''Python''"]
  from t have 1: "discovery Match e_ex ''/home/u/Desktop'' fs_tree =
     (None, [\<lparr>path = ''/home/u/Desktop/a.go'', language = ''Go''\<rparr>,
             \<lparr>path = ''/home/u/Desktop/l.py'', language = ''Python''\<rparr>,
             \<lparr>path = ''/home/u/Desktop/sub/d.py'', language = ''Python''\<rparr>])"
    by (simp add: allFiles_fs_tree(3)) (simp add: allFiles_fs_tree excludePatterns_e_ex specTasks_fs_tree)
  from t d r x ext_fs_tree(4) allFiles_fs_tree(3)
  have 2: "filter (\<lambda>x. path x = ''/home/u/Desktop/sub/d.py'')
     (snd (discovery Match e_ex ''/home/u/Desktop'' fs_tree)) =
     [\<lparr>path = ''/home/u/Desktop/sub/d.py'', language = ''Python''\<rparr>]"
    by blast
  from 1 2 d r x ext_fs_tree(4) allFiles_fs_tree(3) show ?thesis by blast
qed

section \<open>The line count\<close>

text \<open>The spec's words: a line is a maximal run of bytes between terminators; a final
  partial line counts as one line; an empty file has no line.\<close>

fun runs :: "string \<Rightarrow> string list" where
  "runs [] = [[]]"
| "runs (c # cs) =
     (if c = newline then [] # runs cs
      else (case runs cs of [] \<Rightarrow> [[c]] | r # rs \<Rightarrow> (c # r) # rs))"

definition specLineCount :: "string \<Rightarrow> nat" where
  "specLineCount bs = (let rs = runs bs in if last rs = [] then length rs - 1 else length rs)"

lemma runs_nonempty [simp]: "runs bs \<noteq> []"
  by (induction bs) (auto split: list.splits)

lemma runs_no_newline: "newline \<notin> set bs \<Longrightarrow> runs bs = [bs]"
  by (induction bs) auto

lemma runs_line: "newline \<notin> set l \<Longrightarrow> runs (l @ newline # rest) = l # runs rest"
  by (induction l) auto

lemma IndexByte_None: "(IndexByte bs c = None) = (c \<notin> set bs)"
  by (induction bs) auto

lemma IndexByte_Some:
  "IndexByte bs c = Some i \<Longrightarrow> bs = take i bs @ c # drop (Suc i) bs \<and> c \<notin> set (take i bs)"
proof (induction bs arbitrary: i)
  case Nil
  then show ?case by simp
next
  case (Cons b bs)
  show ?case
  proof (cases "b = c")
    case True
    with Cons.prems show ?thesis by simp
  next
    case False
    with Cons.prems obtain j where j: "IndexByte bs c = Some j" "i = Suc j" by auto
    from Cons.IH [OF j(1)] False j(2) show ?thesis by auto
  qed
qed

lemma specLineCount_line:
  "newline \<notin> set l \<Longrightarrow> specLineCount (l @ newline # rest) = Suc (specLineCount rest)"
  by (simp add: specLineCount_def runs_line Let_def)

lemma specLineCount_last: "newline \<notin> set bs \<Longrightarrow> specLineCount bs = (if bs = [] then 0 else 1)"
  by (simp add: specLineCount_def runs_no_newline)

lemma MaxScanTokenSize_pos: "0 < MaxScanTokenSize"
  by (simp add: MaxScanTokenSize_def)

text \<open>The input the scanner reads without \<open>ErrTooLong\<close>: every run is shorter than the
  buffer.\<close>

definition shortLines :: "string \<Rightarrow> bool" where
  "shortLines bs = (\<forall>r\<in>set (runs bs). length r < MaxScanTokenSize)"

lemma shortLines_Nil [simp]: "shortLines []"
  by (simp add: shortLines_def MaxScanTokenSize_pos)

lemma Scan_line:
  assumes "shortLines (input s)" "newline \<in> set (input s)"
  shows "\<exists>l rest. input s = l @ newline # rest \<and> newline \<notin> set l \<and>
           Scan s = (True, s\<lparr>input := rest\<rparr>) \<and> shortLines rest"
proof -
  obtain i where i: "IndexByte (input s) newline = Some i"
    using assms(2) IndexByte_None [of "input s" newline] by (cases "IndexByte (input s) newline") auto
  define l where "l = take i (input s)"
  define rest where "rest = drop (Suc i) (input s)"
  have sp: "input s = l @ newline # rest" "newline \<notin> set l"
    using IndexByte_Some [OF i] by (simp_all add: l_def rest_def)
  have rs: "runs (input s) = l # runs rest" using sp runs_line by simp
  have len: "length l < MaxScanTokenSize" using assms(1) rs by (simp add: shortLines_def)
  have li: "length l = i" using IndexByte_Some_nonempty [OF i] by (simp add: l_def)
  have tk: "take MaxScanTokenSize (input s) = l @ newline # take (MaxScanTokenSize - Suc (length l)) rest"
    using len sp(1) by (simp add: take_Cons')
  have "IndexByte (l @ newline # xs) newline = Some (length l)" for xs
    using sp(2) by (induction l) auto
  then have ix: "IndexByte (take MaxScanTokenSize (input s)) newline = Some i"
    using tk li by simp
  have "Scan s = (True, s\<lparr>input := rest\<rparr>)"
    using ix by (simp add: Scan_def rest_def)
  moreover have "shortLines rest" using assms(1) rs by (simp add: shortLines_def)
  ultimately show ?thesis using sp by blast
qed

lemma Scan_last:
  assumes "shortLines (input s)" "newline \<notin> set (input s)"
  shows "Scan s = (if input s = [] then (False, s\<lparr>scanErr := ioErr s\<rparr>) else (True, s\<lparr>input := []\<rparr>))"
proof -
  have "runs (input s) = [input s]" using assms(2) by (rule runs_no_newline)
  then have len: "length (input s) < MaxScanTokenSize" using assms(1) by (simp add: shortLines_def)
  have "newline \<notin> set (take MaxScanTokenSize (input s))"
    using assms(2) by (meson in_set_takeD)
  then have "IndexByte (take MaxScanTokenSize (input s)) newline = None"
    by (simp add: IndexByte_None)
  then show ?thesis using len by (simp add: Scan_def)
qed

lemma scanLoop_shortLines:
  "shortLines (input s) \<Longrightarrow>
   scanLoop s n = (n + of_nat (specLineCount (input s)), s\<lparr>input := [], scanErr := ioErr s\<rparr>)"
proof (induction s n rule: scanLoop.induct)
  case (1 s lineCount)
  show ?case
  proof (cases "newline \<in> set (input s)")
    case True
    from Scan_line [OF "1.prems" True] obtain l rest where
      sp: "input s = l @ newline # rest" "newline \<notin> set l"
      and sc: "Scan s = (True, s\<lparr>input := rest\<rparr>)" and sh: "shortLines rest" by blast
    have "scanLoop s lineCount = scanLoop (s\<lparr>input := rest\<rparr>) (lineCount + 1)"
      using sc by (subst scanLoop.simps) simp
    also have "\<dots> = (lineCount + 1 + of_nat (specLineCount rest),
                      s\<lparr>input := [], scanErr := ioErr s\<rparr>)"
      using "1.IH" [OF sc [symmetric] _ ] sh by simp
    finally show ?thesis using sp by (simp add: specLineCount_line)
  next
    case False
    note sl = Scan_last [OF "1.prems" False]
    show ?thesis
    proof (cases "input s = []")
      case True
      then show ?thesis using sl by (subst scanLoop.simps) (simp add: specLineCount_last)
    next
      case False
      with sl have sc: "Scan s = (True, s\<lparr>input := []\<rparr>)" by simp
      have "scanLoop s lineCount = scanLoop (s\<lparr>input := []\<rparr>) (lineCount + 1)"
        using sc by (subst scanLoop.simps) simp
      also have "\<dots> = (lineCount + 1 + of_nat (specLineCount []), s\<lparr>input := [], scanErr := ioErr s\<rparr>)"
        using "1.IH" [OF sc [symmetric]] by simp
      finally show ?thesis using False \<open>newline \<notin> set (input s)\<close>
        by (simp add: specLineCount_last)
    qed
  qed
qed

section \<open>The counter on readable and unreadable files\<close>

lemma processFile_failed:
  "openErr (os p) \<noteq> None \<or> statErr (os p) \<noteq> None \<Longrightarrow> processFile os p lang stats = stats"
  by (auto simp: processFile_def Let_def)

lemma processFile_opened:
  "openErr (os p) = None \<Longrightarrow> statErr (os p) = None \<Longrightarrow>
   processFile os p lang stats =
     recordFile lang (fst (scanLoop (NewScanner (os p)) 0)) (Size (os p)) stats"
  by (simp add: processFile_def Let_def split: prod.splits)

lemma scanLoop_NewScanner:
  "shortLines (content f) \<Longrightarrow>
   scanLoop (NewScanner f) 0 =
     (of_nat (specLineCount (content f)), \<lparr>input = [], ioErr = readErr f, scanErr = readErr f\<rparr>)"
  using scanLoop_shortLines [of "NewScanner f" 0] by (simp add: NewScanner_def)

text \<open>Examples: a file of three lines without a final newline, and an empty file.\<close>

definition os_abc :: os where
  "os_abc p = \<lparr>openErr = None, statErr = None, Size = 5,
              content = ''a'' @ [newline] @ ''b'' @ [newline] @ ''c'', readErr = None\<rparr>"

definition os_empty :: os where
  "os_empty p = \<lparr>openErr = None, statErr = None, Size = 0, content = [], readErr = None\<rparr>"

lemma newline_neq [simp]: "CHR ''a'' \<noteq> newline" "CHR ''b'' \<noteq> newline" "CHR ''c'' \<noteq> newline"
  "CHR ''x'' \<noteq> newline" "newline \<noteq> CHR ''x''"
  by (simp_all add: newline_def)

text \<open>A file of one line of 64 KiB, and a file whose second read fails.\<close>

definition os_long :: os where
  "os_long p = \<lparr>openErr = None, statErr = None, Size = 65536,
               content = replicate MaxScanTokenSize (CHR ''x''), readErr = None\<rparr>"

definition os_ioerr :: os where
  "os_ioerr p = \<lparr>openErr = None, statErr = None, Size = 4096,
                content = ''a'' @ [newline] @ ''b'' @ [newline],
                readErr = Some (PathError ''read: input/output error'')\<rparr>"

lemma scanLoop_os_long:
  "scanLoop (NewScanner (os_long p)) 0 =
     (0, \<lparr>input = [], ioErr = None, scanErr = Some ErrTooLong\<rparr>)"
proof -
  have "IndexByte (replicate MaxScanTokenSize (CHR ''x'')) newline = None"
    by (simp add: IndexByte_None)
  then have "Scan (NewScanner (os_long p)) =
     (False, \<lparr>input = [], ioErr = None, scanErr = Some ErrTooLong\<rparr>)"
    by (simp add: Scan_def NewScanner_def os_long_def)
  then show ?thesis by (subst scanLoop.simps) simp
qed

lemma scanLoop_os_ioerr:
  "scanLoop (NewScanner (os_ioerr p)) 0 =
     (2, \<lparr>input = [], ioErr = Some (PathError ''read: input/output error''),
          scanErr = Some (PathError ''read: input/output error'')\<rparr>)"
proof -
  have r: "runs (content (os_ioerr p)) = [''a'', ''b'', []]" by (simp add: os_ioerr_def)
  have s: "shortLines (content (os_ioerr p))" by (simp add: shortLines_def r MaxScanTokenSize_def)
  have n: "specLineCount (content (os_ioerr p)) = 2" by (simp add: specLineCount_def r)
  show ?thesis using scanLoop_NewScanner [OF s] n by (simp add: os_ioerr_def)
qed

text \<open>
  Claim C6, as stated, fails on a file with a long line. A file of one line of 65536
  bytes opens, answers \<open>Stat\<close> and is read without an error of the operating system, and
  it has one line in the spec's words; the scanner stops with \<open>ErrTooLong\<close> before it
  returns a token, so \<open>countLines\<close> returns 0 lines with that error and \<open>processFile\<close>
  records 0 lines.
\<close>

theorem long_line_counterexample:
  "openErr (os_long ''/d/x.js'') = None \<and> statErr (os_long ''/d/x.js'') = None \<and>
   readErr (os_long ''/d/x.js'') = None \<and>
   content (os_long ''/d/x.js'') = replicate 65536 (CHR ''x'') \<and>
   specLineCount (content (os_long ''/d/x.js'')) = 1 \<and>
   countLines os_long ''/d/x.js'' = (0, Some ErrTooLong) \<and>
   processFile os_long ''/d/x.js'' ''JavaScript'' Map.empty =
     [''JavaScript'' \<mapsto> \<lparr>FileCount = 1, LineCount = 0, ByteCount = 65536\<rparr>]"
proof -
  have o: "openErr (os_long ''/d/x.js'') = None" "statErr (os_long ''/d/x.js'') = None"
    "readErr (os_long ''/d/x.js'') = None" "Size (os_long ''/d/x.js'') = 65536"
    "content (os_long ''/d/x.js'') = replicate 65536 (CHR ''x'')"
    by (simp_all add: os_long_def MaxScanTokenSize_def)
  have n: "specLineCount (replicate 65536 (CHR ''x'')) = 1"
    by (simp add: specLineCount_last)
  show ?thesis
    by (simp add: o n countLines_def processFile_opened scanLoop_os_long recordFile_apply)
qed

text \<open>
  Claim C6, amended. For a file whose reads end without an error and whose lines are all
  shorter than the scanner's buffer of 65536 bytes, the line count of \<open>countLines\<close> and the
  one \<open>processFile\<close> records are the number of maximal runs of bytes between line
  terminators, a final run without terminator counting as a line. An empty file of size 0
  is recorded with one file, zero lines and zero bytes.
\<close>

theorem counter_line_count:
  assumes "readErr (os p) = None" and "shortLines (content (os p))"
  shows "(openErr (os p) = None \<longrightarrow>
            countLines os p = (of_nat (specLineCount (content (os p))), None)) \<and>
         (openErr (os p) = None \<and> statErr (os p) = None \<longrightarrow>
            processFile os p lang stats =
              recordFile lang (of_nat (specLineCount (content (os p)))) (Size (os p)) stats) \<and>
         (openErr (os p) = None \<and> statErr (os p) = None \<and> content (os p) = [] \<and>
          Size (os p) = 0 \<longrightarrow>
            processFile os p lang Map.empty =
              [lang \<mapsto> \<lparr>FileCount = 1, LineCount = 0, ByteCount = 0\<rparr>])"
proof -
  note sl = scanLoop_NewScanner [OF assms(2)]
  have e: "specLineCount [] = 0" by (simp add: specLineCount_def)
  show ?thesis
    using sl assms(1)
    by (auto simp: countLines_def Let_def processFile_opened recordFile_apply e)
qed

theorem counter_line_count_witness:
  "readErr (os_abc ''/d/a.go'') = None \<and> shortLines (content (os_abc ''/d/a.go'')) \<and>
   openErr (os_abc ''/d/a.go'') = None \<and> statErr (os_abc ''/d/a.go'') = None \<and>
   countLines os_abc ''/d/a.go'' = (3, None) \<and>
   processFile os_abc ''/d/a.go'' ''Go'' Map.empty =
     [''Go'' \<mapsto> \<lparr>FileCount = 1, LineCount = 3, ByteCount = 5\<rparr>] \<and>
   readErr (os_empty ''/d/empty.js'') = None \<and> shortLines (content (os_empty ''/d/empty.js'')) \<and>
   processFile os_empty ''/d/empty.js'' ''JavaScript'' Map.empty =
     [''JavaScript'' \<mapsto> \<lparr>FileCount = 1, LineCount = 0, ByteCount = 0\<rparr>]"
proof -
  have r: "runs (content (os_abc ''/d/a.go'')) = [''a'', ''b'', ''c'']"
    by (simp add: os_abc_def)
  have s: "shortLines (content (os_abc ''/d/a.go''))"
    by (simp add: shortLines_def r MaxScanTokenSize_def)
  have n: "specLineCount (content (os_abc ''/d/a.go'')) = 3"
    by (simp add: specLineCount_def r)
  have o: "readErr (os_abc ''/d/a.go'') = None" "openErr (os_abc ''/d/a.go'') = None"
    "statErr (os_abc ''/d/a.go'') = None" "Size (os_abc ''/d/a.go'') = 5"
    by (simp_all add: os_abc_def)
  have oe: "readErr (os_empty ''/d/empty.js'') = None" "openErr (os_empty ''/d/empty.js'') = None"
    "statErr (os_empty ''/d/empty.js'') = None" "Size (os_empty ''/d/empty.js'') = 0"
    "content (os_empty ''/d/empty.js'') = []"
    by (simp_all add: os_empty_def)
  have se: "shortLines (content (os_empty ''/d/empty.js''))" by (simp add: oe)
  note t1 = counter_line_count [where os = os_abc and p = "''/d/a.go''" and lang = "''Go''"
      and stats = Map.empty, OF o(1) s]
  note t2 = counter_line_count [where os = os_empty and p = "''/d/empty.js''"
      and lang = "''JavaScript''" and stats = Map.empty, OF oe(1) se]
  from t1 have a: "countLines os_abc ''/d/a.go'' = (3, None)"
    "processFile os_abc ''/d/a.go'' ''Go'' Map.empty =
     [''Go'' \<mapsto> \<lparr>FileCount = 1, LineCount = 3, ByteCount = 5\<rparr>]"
    using o n by (simp_all add: recordFile_apply)
  from t2 have b: "processFile os_empty ''/d/empty.js'' ''JavaScript'' Map.empty =
     [''JavaScript'' \<mapsto> \<lparr>FileCount = 1, LineCount = 0, ByteCount = 0\<rparr>]"
    using oe by blast
  from a b s se o oe show ?thesis by simp
qed

text \<open>
  Claim C3. A task on whose file the reads fail is dropped by \<open>part_001\<close>, whose
  \<open>countLines\<close> returns \<open>scanner.Err()\<close>. \<open>processFile\<close> of \<open>main.go\<close> and \<open>part_000\<close>
  returns early only when the file does not open or \<open>Stat\<close> fails; it never looks at
  \<open>scanner.Err()\<close>, so a file with a line of 64 KiB or a file whose read fails is still
  counted, with the lines scanned before the failure and the size of the metadata.
\<close>

theorem read_failure_still_counted:
  "countLines os_long p = (0, Some ErrTooLong) \<and>
   goroutine_p001 os_long p ''JavaScript'' Map.empty = Map.empty \<and>
   processFile os_long p ''JavaScript'' Map.empty =
     [''JavaScript'' \<mapsto> \<lparr>FileCount = 1, LineCount = 0, ByteCount = 65536\<rparr>] \<and>
   countLines os_ioerr p = (2, Some (PathError ''read: input/output error'')) \<and>
   goroutine_p001 os_ioerr p ''Go'' Map.empty = Map.empty \<and>
   processFile os_ioerr p ''Go'' Map.empty =
     [''Go'' \<mapsto> \<lparr>FileCount = 1, LineCount = 2, ByteCount = 4096\<rparr>]"
proof -
  have o: "openErr (os_long p) = None" "statErr (os_long p) = None" "Size (os_long p) = 65536"
    "openErr (os_ioerr p) = None" "statErr (os_ioerr p) = None" "Size (os_ioerr p) = 4096"
    by (simp_all add: os_long_def os_ioerr_def)
  have c1: "countLines os_long p = (0, Some ErrTooLong)"
    by (simp add: countLines_def o scanLoop_os_long)
  have c2: "countLines os_ioerr p = (2, Some (PathError ''read: input/output error''))"
    by (simp add: countLines_def o scanLoop_os_ioerr)
  show ?thesis
    by (simp add: c1 c2 goroutine_p001_def processFile_opened o scanLoop_os_long
          scanLoop_os_ioerr recordFile_apply)
qed

section \<open>The sum of the file counts\<close>

text \<open>What \<open>processFile\<close> checks before it records a file: the file opens and \<open>Stat\<close>
  succeeds. The total of the file counts in \<open>main.go\<close> and \<open>part_000\<close> is the number of
  tasks that pass this check.\<close>

definition processed :: "os \<Rightarrow> FileResult \<Rightarrow> bool" where
  "processed os t = (openErr (os (path t)) = None \<and> statErr (os (path t)) = None)"

lemma dom_recordFile: "dom (recordFile l n b st) = insert l (dom st)"
  by (simp add: recordFile_apply)

lemma totalFiles_upd:
  assumes "finite (dom st)"
  shows "totalFiles (st(l \<mapsto> v)) =
           FileCount v + (\<Sum>k\<in>dom st - {l}. FileCount (the (st k)))"
proof -
  have "totalFiles (st(l \<mapsto> v)) =
          FileCount v + (\<Sum>k\<in>dom st - {l}. FileCount (the ((st(l \<mapsto> v)) k)))"
    using assms by (simp add: totalFiles_def sum.insert_remove)
  also have "(\<Sum>k\<in>dom st - {l}. FileCount (the ((st(l \<mapsto> v)) k))) =
             (\<Sum>k\<in>dom st - {l}. FileCount (the (st k)))"
    by (rule sum.cong) auto
  finally show ?thesis .
qed

lemma totalFiles_split:
  assumes "finite (dom st)"
  shows "totalFiles st =
           (case st l of None \<Rightarrow> 0 | Some s \<Rightarrow> FileCount s) +
           (\<Sum>k\<in>dom st - {l}. FileCount (the (st k)))"
proof (cases "st l")
  case None
  then have "dom st - {l} = dom st" by auto
  with None show ?thesis by (simp add: totalFiles_def)
next
  case (Some s)
  then have "l \<in> dom st" by auto
  with assms Some show ?thesis by (simp add: totalFiles_def sum.remove)
qed

lemma totalFiles_recordFile:
  "finite (dom st) \<Longrightarrow> totalFiles (recordFile l n b st) = totalFiles st + 1"
  by (simp add: recordFile_apply totalFiles_upd totalFiles_split [of st l] split: option.splits)

lemma processFile_processed:
  "processFile os (path t) (language t) st =
     (if processed os t
      then recordFile (language t) (fst (scanLoop (NewScanner (os (path t))) 0))
             (Size (os (path t))) st
      else st)"
  by (auto simp: processed_def processFile_opened processFile_failed)

lemma fold_processFile:
  "finite (dom st) \<Longrightarrow>
   finite (dom (fold (\<lambda>t. processFile os (path t) (language t)) tasks st)) \<and>
   totalFiles (fold (\<lambda>t. processFile os (path t) (language t)) tasks st) =
     totalFiles st + of_nat (length (filter (processed os) tasks))"
proof (induction tasks arbitrary: st)
  case Nil
  then show ?case by simp
next
  case (Cons t tasks)
  let ?st = "processFile os (path t) (language t) st"
  have f: "finite (dom ?st)"
    using Cons.prems by (simp add: processFile_processed dom_recordFile)
  have tf: "totalFiles ?st = totalFiles st + (if processed os t then 1 else 0)"
    using Cons.prems by (simp add: processFile_processed totalFiles_recordFile)
  from Cons.IH [OF f] tf show ?case by simp
qed

lemma totalFiles_aggregate:
  "totalFiles (aggregate os tasks) = of_nat (length (filter (processed os) tasks))"
  using fold_processFile [of Map.empty os tasks] by (simp add: aggregate_def totalFiles_def)

text \<open>The spec's words: a file is successfully read when the counter returns no failure,
  that is, the file opens, \<open>Stat\<close> succeeds and the scan ends without an error; the count
  is that of the files with a recognized, non-excluded extension that were successfully
  read.\<close>

definition readOk :: "os \<Rightarrow> string \<Rightarrow> bool" where
  "readOk os p =
     (openErr (os p) = None \<and> statErr (os p) = None \<and>
      scanErr (snd (scanLoop (NewScanner (os p)) 0)) = None)"

definition specFileCount :: "(string \<Rightarrow> bool) \<Rightarrow> os \<Rightarrow> string list \<Rightarrow> nat" where
  "specFileCount excluded os ps =
     length [p \<leftarrow> ps. languageExtMap (ToLower (Ext p)) \<noteq> None \<and> \<not> excluded p \<and> readOk os p]"

text \<open>An example: the pattern \<open>*.py\<close> is excluded, and the Desktop directory holds \<open>a.go\<close>,
  \<open>b.go\<close> whose read fails after two lines, \<open>c.txt\<close> and \<open>d.py\<close>.\<close>

definition e_py :: env where
  "e_py = e_plain\<lparr>excludeFlag := ''*.py''\<rparr>"

definition fs_rf :: "string \<Rightarrow> fsnode" where
  "fs_rf root = Dir ''Desktop'' None [File ''a.go'', File ''b.go'', File ''c.txt'', File ''d.py'']"

definition os_rf :: os where
  "os_rf p = (if p = ''/home/u/Desktop/b.go'' then os_ioerr p else os_ex p)"

lemma Match_py:
  "Match ''*.py'' ''b.go'' = Inr False"
  "Match ''*.py'' ''c.txt'' = Inr False"
  "Match ''*.py'' ''d.py'' = Inr True"
  by (simp_all add: Match.simps scanChunk_def matchChunk_def matchChunkLoop.simps
        Separator_def backslash_def)

lemma e_py: "homeDir e_py = Inr ''/home/u''" "workDir e_py = Inr ''/home/u/Desktop''"
  "skipNodeModulesFlag e_py = False"
  "excludePatterns e_py = [''*.py'']" "excludePatterns_p001 e_py = [''*.py'']"
  by (simp_all add: e_py_def e_plain_def excludePatterns_def excludePatterns_p001_def
        TrimSpace_def isSpace_def)

lemma allFiles_fs_rf:
  "allFiles False ''/home/u/Desktop'' (fs_rf root) =
     [''/home/u/Desktop/a.go'', ''/home/u/Desktop/b.go'', ''/home/u/Desktop/c.txt'',
      ''/home/u/Desktop/d.py'']"
  "visited skip ''/home/u/Desktop'' (fs_rf root) =
     [''/home/u/Desktop/a.go'', ''/home/u/Desktop/b.go'', ''/home/u/Desktop/c.txt'',
      ''/home/u/Desktop/d.py'']"
  "firstError skip (fs_rf root) = None"
  by (simp_all add: fs_rf_def Join_def Separator_def)

lemma Base_fs_rf:
  "Base ''/home/u/Desktop/a.go'' = ''a.go''"
  "Base ''/home/u/Desktop/b.go'' = ''b.go''"
  "Base ''/home/u/Desktop/c.txt'' = ''c.txt''"
  "Base ''/home/u/Desktop/d.py'' = ''d.py''"
  by (simp_all add: Base_def Separator_def)

lemma ext_fs_rf:
  "languageExtMap (ToLower (Ext ''/home/u/Desktop/a.go'')) = Some ''Go''"
  "languageExtMap (ToLower (Ext ''/home/u/Desktop/b.go'')) = Some ''Go''"
  "languageExtMap (ToLower (Ext ''/home/u/Desktop/c.txt'')) = None"
  "languageExtMap (ToLower (Ext ''/home/u/Desktop/d.py'')) = Some ''Python''"
  by (simp_all add: Ext_def Separator_def ToLower_def lowerByte_def languageExtMap_def
        languageExtList_def)

lemma excluded_fs_rf:
  "\<not> excludeLoop Match [''*.py''] ''/home/u/Desktop/a.go''"
  "\<not> excludeLoop Match [''*.py''] ''/home/u/Desktop/b.go''"
  "\<not> excludeLoop Match [''*.py''] ''/home/u/Desktop/c.txt''"
  "excludeLoop Match [''*.py''] ''/home/u/Desktop/d.py''"
  "\<not> excludeLoop_p001 Match [''*.py''] ''/home/u/Desktop/a.go''"
  "\<not> excludeLoop_p001 Match [''*.py''] ''/home/u/Desktop/b.go''"
  "\<not> excludeLoop_p001 Match [''*.py''] ''/home/u/Desktop/c.txt''"
  "excludeLoop_p001 Match [''*.py''] ''/home/u/Desktop/d.py''"
  by (simp_all add: Base_fs_rf TrimSpace_ex Match_py Match_py_a_go)

lemma tasks_fs_rf:
  "tasksFor (excludeLoop Match [''*.py''])
     [''/home/u/Desktop/a.go'', ''/home/u/Desktop/b.go'', ''/home/u/Desktop/c.txt'',
      ''/home/u/Desktop/d.py''] =
     [\<lparr>path = ''/home/u/Desktop/a.go'', language = ''Go''\<rparr>,
      \<lparr>path = ''/home/u/Desktop/b.go'', language = ''Go''\<rparr>]"
  "tasksFor (excludeLoop_p001 Match [''*.py''])
     [''/home/u/Desktop/a.go'', ''/home/u/Desktop/b.go'', ''/home/u/Desktop/c.txt'',
      ''/home/u/Desktop/d.py''] =
     [\<lparr>path = ''/home/u/Desktop/a.go'', language = ''Go''\<rparr>,
      \<lparr>path = ''/home/u/Desktop/b.go'', language = ''Go''\<rparr>]"
  by (simp_all add: tasksFor_comprehension excluded_fs_rf ext_fs_rf
        del: excludeLoop.simps excludeLoop_p001.simps)

lemma os_rf:
  "os_rf ''/home/u/Desktop/a.go'' = os_ex ''/home/u/Desktop/a.go''"
  "os_rf ''/home/u/Desktop/b.go'' = os_ioerr ''/home/u/Desktop/b.go''"
  by (simp_all add: os_rf_def)

lemma os_ex_ok: "openErr (os_ex p) = None" "statErr (os_ex p) = None" "Size (os_ex p) = 13"
  by (simp_all add: os_ex_def)

lemma os_ioerr_ok: "openErr (os_ioerr p) = None" "statErr (os_ioerr p) = None"
  "Size (os_ioerr p) = 4096"
  by (simp_all add: os_ioerr_def)

lemma readOk_fs_rf:
  "readOk os_rf ''/home/u/Desktop/a.go''" "\<not> readOk os_rf ''/home/u/Desktop/b.go''"
  by (simp_all add: readOk_def os_rf os_ex_ok os_ioerr_ok scanLoop_os_ex scanLoop_os_ioerr)

lemma aggregate_fs_rf:
  "aggregate os_rf [\<lparr>path = ''/home/u/Desktop/a.go'', language = ''Go''\<rparr>,
                    \<lparr>path = ''/home/u/Desktop/b.go'', language = ''Go''\<rparr>] =
     [''Go'' \<mapsto> \<lparr>FileCount = 2, LineCount = 3, ByteCount = 4109\<rparr>]"
  by (simp add: aggregate_def processFile_opened os_rf os_ex_ok os_ioerr_ok scanLoop_os_ex
        scanLoop_os_ioerr recordFile_apply)

lemma aggregate_p001_fs_rf:
  "aggregate_p001 os_rf [\<lparr>path = ''/home/u/Desktop/a.go'', language = ''Go''\<rparr>,
                         \<lparr>path = ''/home/u/Desktop/b.go'', language = ''Go''\<rparr>] =
     [''Go'' \<mapsto> \<lparr>FileCount = 1, LineCount = 1, ByteCount = 0\<rparr>]"
  by (simp add: aggregate_p001_def goroutine_p001_def countLines_def os_rf os_ex_ok os_ioerr_ok
        scanLoop_os_ex scanLoop_os_ioerr recordFile_p001_def addLineCount_def incFileCount_def
        createEntry_def updEntry_def zeroStats_def)

text \<open>
  Claim C7. The sum of \<open>FileCount\<close> over all languages, which is the total the report
  prints, counts every task on which \<open>processFile\<close> reached its critical section, and that
  includes a file whose read failed. In the example the walker sends tasks for \<open>a.go\<close> and
  \<open>b.go\<close>; the read of \<open>b.go\<close> fails, so one file with a recognized, non-excluded extension
  is successfully read. \<open>main.go\<close> and \<open>part_000\<close> report two files; \<open>part_001\<close>, whose
  \<open>countLines\<close> returns \<open>scanner.Err()\<close>, reports one.
\<close>

theorem file_count_includes_failed_read:
  "allFiles False ''/home/u/Desktop'' (fs_rf ''/home/u/Desktop'') =
     [''/home/u/Desktop/a.go'', ''/home/u/Desktop/b.go'', ''/home/u/Desktop/c.txt'',
      ''/home/u/Desktop/d.py''] \<and>
   discovery Match e_py ''/home/u/Desktop'' (fs_rf ''/home/u/Desktop'') =
     (None, [\<lparr>path = ''/home/u/Desktop/a.go'', language = ''Go''\<rparr>,
             \<lparr>path = ''/home/u/Desktop/b.go'', language = ''Go''\<rparr>]) \<and>
   countLines os_rf ''/home/u/Desktop/b.go'' = (2, Some (PathError ''read: input/output error'')) \<and>
   specFileCount (excludeLoop Match (excludePatterns e_py)) os_rf
     (allFiles False ''/home/u/Desktop'' (fs_rf ''/home/u/Desktop'')) = 1 \<and>
   main_go Match e_py fs_rf os_rf =
     Reported \<lparr>walkError = None,
               table = [''Go'' \<mapsto> \<lparr>FileCount = 2, LineCount = 3, ByteCount = 4109\<rparr>],
               files = 2, lines = 3, bytes = 4109\<rparr> \<and>
   main_p000 Match e_py fs_rf os_rf =
     Reported \<lparr>walkError = None,
               table = [''Go'' \<mapsto> \<lparr>FileCount = 2, LineCount = 3, ByteCount = 4109\<rparr>],
               files = 2, lines = 3, bytes = 4109\<rparr> \<and>
   main_p001 Match e_py fs_rf os_rf =
     Reported \<lparr>walkError = None,
               table = [''Go'' \<mapsto> \<lparr>FileCount = 1, LineCount = 1, ByteCount = 0\<rparr>],
               files = 1, lines = 1, bytes = 0\<rparr>"
proof -
  have d: "discovery Match e_py ''/home/u/Desktop'' (fs_rf ''/home/u/Desktop'') =
     (None, [\<lparr>path = ''/home/u/Desktop/a.go'', language = ''Go''\<rparr>,
             \<lparr>path = ''/home/u/Desktop/b.go'', language = ''Go''\<rparr>])"
    by (simp add: discovery_eq e_py allFiles_fs_rf tasks_fs_rf del: tasksFor_simps)
  have c: "countLines os_rf ''/home/u/Desktop/b.go'' =
             (2, Some (PathError ''read: input/output error''))"
    by (simp add: countLines_def os_rf os_ioerr_ok scanLoop_os_ioerr)
  have s: "specFileCount (excludeLoop Match (excludePatterns e_py)) os_rf
     (allFiles False ''/home/u/Desktop'' (fs_rf ''/home/u/Desktop'')) = 1"
    by (simp add: specFileCount_def e_py allFiles_fs_rf excluded_fs_rf ext_fs_rf readOk_fs_rf
          del: excludeLoop.simps)
  have m: "main_go Match e_py fs_rf os_rf =
     Reported \<lparr>walkError = None,
               table = [''Go'' \<mapsto> \<lparr>FileCount = 2, LineCount = 3, ByteCount = 4109\<rparr>],
               files = 2, lines = 3, bytes = 4109\<rparr>"
    by (simp add: main_go_eq [OF e_py(1)] e_py Join_Desktop allFiles_fs_rf tasks_fs_rf
          aggregate_fs_rf mkReport_one del: tasksFor_simps)
  have m0: "main_p000 Match e_py fs_rf os_rf =
     Reported \<lparr>walkError = None,
               table = [''Go'' \<mapsto> \<lparr>FileCount = 2, LineCount = 3, ByteCount = 4109\<rparr>],
               files = 2, lines = 3, bytes = 4109\<rparr>"
    by (simp add: main_p000_eq [OF e_py(1)] e_py Join_Desktop allFiles_fs_rf tasks_fs_rf
          aggregate_fs_rf mkReport_one del: tasksFor_simps)
  have m1: "main_p001 Match e_py fs_rf os_rf =
     Reported \<lparr>walkError = None,
               table = [''Go'' \<mapsto> \<lparr>FileCount = 1, LineCount = 1, ByteCount = 0\<rparr>],
               files = 1, lines = 1, bytes = 0\<rparr>"
    by (simp add: main_p001_def e_py discovery_p001_eq allFiles_fs_rf tasks_fs_rf
          aggregate_p001_fs_rf mkReport_one del: tasksFor_simps)
  from d c s m m0 m1 show ?thesis by (simp add: allFiles_fs_rf)
qed

text \<open>An example for the worker pool: three tasks, of which the Python file does not
  open.\<close>

definition os_mixed :: os where
  "os_mixed p =
     (if p = ''/home/u/Desktop/b.py''
      then \<lparr>openErr = Some (PathError ''/home/u/Desktop/b.py''), statErr = None, Size = 0,
            content = [], readErr = None\<rparr>
      else os_ex p)"

definition tasks_mixed :: "FileResult list" where
  "tasks_mixed =
     [\<lparr>path = ''/home/u/Desktop/a.go'', language = ''Go''\<rparr>,
      \<lparr>path = ''/home/u/Desktop/b.py'', language = ''Python''\<rparr>,
      \<lparr>path = ''/home/u/Desktop/d.go'', language = ''Go''\<rparr>]"

section \<open>The worker pool\<close>

text \<open>The part of \<open>processFile\<close> before \<open>statsMutex.Lock()\<close>: nothing when it returned early,
  else the language, the line count and the size to record.\<close>

definition counter :: "os \<Rightarrow> FileResult \<Rightarrow> (string \<times> go_int \<times> go_int) option" where
  "counter os t =
     (let file = os (path t) in
      if openErr file \<noteq> None then None
      else if statErr file \<noteq> None then None
      else Some (language t, fst (scanLoop (NewScanner file) 0), Size file))"

text \<open>
  The worker pool of \<open>main.go\<close> and \<open>part_000\<close> as a transition system. A worker is at
  \<open>for result := range filesChan\<close> (\<open>Receiving\<close>), has returned from its loop
  (\<open>Returned\<close>), or is inside \<open>processFile\<close> with a counted file, before one of the
  statements from \<open>statsMutex.Lock()\<close> to \<open>statsMutex.Unlock()\<close>; the test of
  \<open>exists\<close> and the creation of the entry are two steps. A program point carries the
  language, the line count and the size.
\<close>

datatype pc = PLock | PCheck | PCreate | PFileCount | PLineCount | PByteCount | PUnlock

datatype wstate = Receiving | Recording pc string go_int go_int | Returned

text \<open>The shared state: the tasks the walker has still to send, whether it has closed the
  channel, the buffer of \<open>filesChan\<close> (capacity 1000), the worker that holds \<open>statsMutex\<close>
  if one does, the table, and the workers.\<close>

record pool =
  pending :: "FileResult list"
  closed :: bool
  filesChan :: "FileResult list"
  statsMutex :: "nat option"
  stats :: StatsTable
  workers :: "wstate list"

definition initPool :: "nat \<Rightarrow> FileResult list \<Rightarrow> pool" where
  "initPool numWorkers tasks =
     \<lparr>pending = tasks, closed = False, filesChan = [], statsMutex = None, stats = Map.empty,
      workers = replicate numWorkers Receiving\<rparr>"

definition setWorker :: "nat \<Rightarrow> wstate \<Rightarrow> pool \<Rightarrow> pool" where
  "setWorker i w s = s\<lparr>workers := (workers s)[i := w]\<rparr>"

text \<open>
  One step of one goroutine. The walker sends when the buffer has room and closes the
  channel after its last task. A receiving worker takes the first task of the buffer and
  runs the part of \<open>processFile\<close> before the lock, which touches no shared state; it
  returns when the channel is closed and empty. \<open>Lock\<close> needs a free mutex. Every other
  statement of the critical section is a step of its own, taken whatever the mutex says.
\<close>

inductive step :: "os \<Rightarrow> pool \<Rightarrow> pool \<Rightarrow> bool" for os :: os where
  send: "pending s = t # ts \<Longrightarrow> length (filesChan s) < 1000 \<Longrightarrow>
         step os s (s\<lparr>pending := ts, filesChan := filesChan s @ [t]\<rparr>)"
| close: "pending s = [] \<Longrightarrow> \<not> closed s \<Longrightarrow> step os s (s\<lparr>closed := True\<rparr>)"
| recv: "i < length (workers s) \<Longrightarrow> workers s ! i = Receiving \<Longrightarrow> filesChan s = t # ts \<Longrightarrow>
         step os s
           (setWorker i
              (case counter os t of None \<Rightarrow> Receiving | Some (l, n, b) \<Rightarrow> Recording PLock l n b)
              (s\<lparr>filesChan := ts\<rparr>))"
| return: "i < length (workers s) \<Longrightarrow> workers s ! i = Receiving \<Longrightarrow> filesChan s = [] \<Longrightarrow>
           closed s \<Longrightarrow> step os s (setWorker i Returned s)"
| lock: "i < length (workers s) \<Longrightarrow> workers s ! i = Recording PLock l n b \<Longrightarrow>
         statsMutex s = None \<Longrightarrow>
         step os s (setWorker i (Recording PCheck l n b) (s\<lparr>statsMutex := Some i\<rparr>))"
| check: "i < length (workers s) \<Longrightarrow> workers s ! i = Recording PCheck l n b \<Longrightarrow>
          step os s
            (setWorker i (Recording (if stats s l = None then PCreate else PFileCount) l n b) s)"
| create: "i < length (workers s) \<Longrightarrow> workers s ! i = Recording PCreate l n b \<Longrightarrow>
           step os s
             (setWorker i (Recording PFileCount l n b) (s\<lparr>stats := (stats s)(l \<mapsto> zeroStats)\<rparr>))"
| fileCount: "i < length (workers s) \<Longrightarrow> workers s ! i = Recording PFileCount l n b \<Longrightarrow>
              step os s
                (setWorker i (Recording PLineCount l n b) (s\<lparr>stats := incFileCount l (stats s)\<rparr>))"
| lineCount: "i < length (workers s) \<Longrightarrow> workers s ! i = Recording PLineCount l n b \<Longrightarrow>
              step os s
                (setWorker i (Recording PByteCount l n b) (s\<lparr>stats := addLineCount l n (stats s)\<rparr>))"
| byteCount: "i < length (workers s) \<Longrightarrow> workers s ! i = Recording PByteCount l n b \<Longrightarrow>
              step os s
                (setWorker i (Recording PUnlock l n b) (s\<lparr>stats := addByteCount l b (stats s)\<rparr>))"
| unlock: "i < length (workers s) \<Longrightarrow> workers s ! i = Recording PUnlock l n b \<Longrightarrow>
           step os s (setWorker i Receiving (s\<lparr>statsMutex := None\<rparr>))"

text \<open>\<open>wg.Wait()\<close> returns when every worker has returned; \<open>runs_to\<close> is a complete
  run of the pool from the start, with the tasks the walker sends in order.\<close>

definition drained :: "pool \<Rightarrow> bool" where
  "drained s = (workers s \<noteq> [] \<and> list_all (\<lambda>w. w = Returned) (workers s))"

definition runs_to :: "os \<Rightarrow> nat \<Rightarrow> FileResult list \<Rightarrow> pool \<Rightarrow> bool" where
  "runs_to os numWorkers tasks s = ((step os)\<^sup>*\<^sup>* (initPool numWorkers tasks) s \<and> drained s)"

text \<open>What is left of the critical section at a program point.\<close>

fun rest :: "pc \<Rightarrow> string \<Rightarrow> go_int \<Rightarrow> go_int \<Rightarrow> StatsTable \<Rightarrow> StatsTable" where
  "rest PLock l n b st = recordFile l n b st"
| "rest PCheck l n b st = recordFile l n b st"
| "rest PCreate l n b st =
     addByteCount l b (addLineCount l n (incFileCount l (st(l \<mapsto> zeroStats))))"
| "rest PFileCount l n b st = addByteCount l b (addLineCount l n (incFileCount l st))"
| "rest PLineCount l n b st = addByteCount l b (addLineCount l n st)"
| "rest PByteCount l n b st = addByteCount l b st"
| "rest PUnlock l n b st = st"

text \<open>A worker between \<open>Lock\<close> and \<open>Unlock\<close>; the table once the holder of the mutex has
  finished its critical section; the records still to come from the workers waiting for
  the lock and from the tasks not yet received.\<close>

fun inCS :: "wstate \<Rightarrow> bool" where
  "inCS (Recording p l n b) = (p \<noteq> PLock)"
| "inCS w = False"

fun finishW :: "wstate \<Rightarrow> StatsTable \<Rightarrow> StatsTable" where
  "finishW (Recording p l n b) st = rest p l n b st"
| "finishW w st = st"

definition base :: "pool \<Rightarrow> StatsTable" where
  "base s = (case statsMutex s of None \<Rightarrow> stats s | Some i \<Rightarrow> finishW (workers s ! i) (stats s))"

fun lockRecs :: "wstate \<Rightarrow> (string \<times> go_int \<times> go_int) multiset" where
  "lockRecs (Recording p l n b) = (if p = PLock then {#(l, n, b)#} else {#})"
| "lockRecs w = {#}"

definition taskRecs :: "os \<Rightarrow> FileResult \<Rightarrow> (string \<times> go_int \<times> go_int) multiset" where
  "taskRecs os t = (case counter os t of None \<Rightarrow> {#} | Some r \<Rightarrow> {#r#})"

definition outstanding :: "os \<Rightarrow> pool \<Rightarrow> (string \<times> go_int \<times> go_int) multiset" where
  "outstanding os s =
     sum_list (map lockRecs (workers s)) + sum_list (map (taskRecs os) (filesChan s @ pending s))"

definition recF :: "string \<times> go_int \<times> go_int \<Rightarrow> StatsTable \<Rightarrow> StatsTable" where
  "recF r st = (case r of (l, n, b) \<Rightarrow> recordFile l n b st)"

definition total :: "os \<Rightarrow> pool \<Rightarrow> StatsTable" where
  "total os s = fold_mset recF (base s) (outstanding os s)"

lemma recordFile_commute:
  "recordFile l n b (recordFile l' n' b' st) = recordFile l' n' b' (recordFile l n b st)"
  by (cases "l = l'") (auto simp: recordFile_apply fun_upd_twist split: option.splits)

lemma cfc_recF: "comp_fun_commute recF"
  by unfold_locales (auto simp: recF_def fun_eq_iff recordFile_commute)

lemmas fold_recF_add = comp_fun_commute.fold_mset_add_mset [OF cfc_recF]
lemmas fold_recF_left = comp_fun_commute.fold_mset_fun_left_comm [OF cfc_recF]

lemma sum_list_map_update:
  fixes f :: "'a \<Rightarrow> 'b::comm_monoid_add"
  shows "i < length xs \<Longrightarrow>
         sum_list (map f (xs[i := y])) + f (xs ! i) = sum_list (map f xs) + f y"
proof (induction xs arbitrary: i)
  case Nil
  then show ?case by simp
next
  case (Cons x xs)
  show ?case
  proof (cases i)
    case 0
    then show ?thesis by (simp add: ac_simps)
  next
    case (Suc j)
    with Cons.prems have "j < length xs" by simp
    from Cons.IH [OF this] Suc show ?thesis by (simp add: ac_simps)
  qed
qed

text \<open>The invariants: a worker is inside the critical section exactly when it holds the
  mutex; a closed channel has no task pending, and a worker returns only from a closed,
  empty channel.\<close>

definition mutexInv :: "pool \<Rightarrow> bool" where
  "mutexInv s =
     ((\<forall>i<length (workers s). inCS (workers s ! i) = (statsMutex s = Some i)) \<and>
      (\<forall>i. statsMutex s = Some i \<longrightarrow> i < length (workers s)))"

definition chanInv :: "pool \<Rightarrow> bool" where
  "chanInv s =
     ((closed s \<longrightarrow> pending s = []) \<and>
      (\<forall>i<length (workers s). workers s ! i = Returned \<longrightarrow> closed s \<and> filesChan s = []))"

lemma step_length: "step os s s' \<Longrightarrow> length (workers s') = length (workers s)"
  by (induction rule: step.induct) (simp_all add: setWorker_def)

lemma step_mutexInv: "step os s s' \<Longrightarrow> mutexInv s \<Longrightarrow> mutexInv s'"
proof (induction rule: step.induct)
  case (recv i s t ts)
  then show ?case
    by (auto simp: mutexInv_def setWorker_def nth_list_update split: option.splits)
next
  case (check i s l n b)
  then show ?case
    by (auto simp: mutexInv_def setWorker_def nth_list_update)
qed (auto simp: mutexInv_def setWorker_def nth_list_update)

lemma step_chanInv: "step os s s' \<Longrightarrow> chanInv s \<Longrightarrow> chanInv s'"
proof (induction rule: step.induct)
  case (send s t ts)
  then show ?case by (auto simp: chanInv_def)
next
  case (recv i s t ts)
  then show ?case
    by (auto simp: chanInv_def setWorker_def nth_list_update split: option.splits)
qed (auto simp: chanInv_def setWorker_def nth_list_update)

lemma lockRecs_counter:
  "lockRecs (case counter os t of None \<Rightarrow> Receiving | Some (l, n, b) \<Rightarrow> Recording PLock l n b) =
     taskRecs os t"
  by (simp add: taskRecs_def split: option.splits)

lemma holder_other:
  assumes "mutexInv s" "statsMutex s = Some h" "i < length (workers s)" "\<not> inCS (workers s ! i)"
  shows "(workers s)[i := w] ! h = workers s ! h"
proof -
  have "h \<noteq> i" using assms by (auto simp: mutexInv_def)
  then show ?thesis by simp
qed

lemma base_other:
  assumes "mutexInv s" "i < length (workers s)" "\<not> inCS (workers s ! i)"
    "statsMutex s' = statsMutex s" "stats s' = stats s" "workers s' = (workers s)[i := w]"
  shows "base s' = base s"
  using assms holder_other [OF assms(1) _ assms(2,3)]
  by (auto simp: base_def split: option.splits)

lemma base_holder:
  assumes "mutexInv s" "i < length (workers s)" "inCS (workers s ! i)"
  shows "base s = finishW (workers s ! i) (stats s)"
  using assms by (auto simp: base_def mutexInv_def)

lemma rest_check:
  "rest (if st l = None then PCreate else PFileCount) l n b st = recordFile l n b st"
  by (simp add: recordFile_def createEntry_def)

lemma step_total: "step os s s' \<Longrightarrow> mutexInv s \<Longrightarrow> total os s' = total os s"
proof (induction rule: step.induct)
  case (send s t ts)
  then show ?case by (simp add: total_def base_def outstanding_def split: option.splits)
next
  case (close s)
  then show ?case by (simp add: total_def base_def outstanding_def split: option.splits)
next
  case (recv i s t ts)
  let ?w = "case counter os t of None \<Rightarrow> Receiving | Some (l, n, b) \<Rightarrow> Recording PLock l n b"
  let ?s' = "setWorker i ?w (s\<lparr>filesChan := ts\<rparr>)"
  have b: "base ?s' = base s"
    using recv by (intro base_other [of s i]) (simp_all add: setWorker_def)
  have "sum_list (map lockRecs ((workers s)[i := ?w])) + lockRecs (workers s ! i) =
        sum_list (map lockRecs (workers s)) + lockRecs ?w"
    using recv by (intro sum_list_map_update) simp
  then have "outstanding os ?s' = outstanding os s"
    using recv by (simp add: outstanding_def setWorker_def lockRecs_counter)
  with b show ?case by (simp add: total_def)
next
  case (return i s)
  let ?s' = "setWorker i Returned s"
  have b: "base ?s' = base s"
    using return by (intro base_other [of s i]) (simp_all add: setWorker_def)
  have "sum_list (map lockRecs ((workers s)[i := Returned])) + lockRecs (workers s ! i) =
        sum_list (map lockRecs (workers s)) + lockRecs Returned"
    using return by (intro sum_list_map_update) simp
  then have "outstanding os ?s' = outstanding os s"
    using return by (simp add: outstanding_def setWorker_def)
  with b show ?case by (simp add: total_def)
next
  case (lock i s l n b)
  let ?s' = "setWorker i (Recording PCheck l n b) (s\<lparr>statsMutex := Some i\<rparr>)"
  have b: "base ?s' = recF (l, n, b) (base s)"
    using lock by (simp add: base_def setWorker_def recF_def)
  have "sum_list (map lockRecs ((workers s)[i := Recording PCheck l n b])) + lockRecs (workers s ! i) =
        sum_list (map lockRecs (workers s)) + lockRecs (Recording PCheck l n b)"
    using lock by (intro sum_list_map_update) simp
  then have "outstanding os s = add_mset (l, n, b) (outstanding os ?s')"
    using lock by (simp add: outstanding_def setWorker_def)
  then show ?case by (simp add: total_def b fold_recF_add fold_recF_left)
next
  case (check i s l n b)
  let ?s' = "setWorker i (Recording (if stats s l = None then PCreate else PFileCount) l n b) s"
  have m: "mutexInv ?s'" using step.check [OF check(1,2)] check(3) by (rule step_mutexInv)
  have "base ?s' = finishW (workers ?s' ! i) (stats ?s')"
    using check by (intro base_holder [OF m]) (simp_all add: setWorker_def)
  also have "\<dots> = recordFile l n b (stats s)"
    using check rest_check [of "stats s" l n b] by (simp add: setWorker_def)
  also have "\<dots> = base s"
    using base_holder [OF check(3,1)] check(2) by simp
  finally have b: "base ?s' = base s" .
  have "sum_list (map lockRecs ((workers s)[i := Recording (if stats s l = None then PCreate else PFileCount) l n b])) + lockRecs (workers s ! i) =
        sum_list (map lockRecs (workers s)) + lockRecs (Recording (if stats s l = None then PCreate else PFileCount) l n b)"
    using check by (intro sum_list_map_update) simp
  then have "outstanding os ?s' = outstanding os s"
    using check by (simp add: outstanding_def setWorker_def)
  with b show ?case by (simp add: total_def)
next
  case (create i s l n b)
  let ?s' = "setWorker i (Recording PFileCount l n b) (s\<lparr>stats := (stats s)(l \<mapsto> zeroStats)\<rparr>)"
  have m: "mutexInv ?s'" using step.create [OF create(1,2)] create(3) by (rule step_mutexInv)
  have "base ?s' = finishW (workers ?s' ! i) (stats ?s')"
    using create by (intro base_holder [OF m]) (simp_all add: setWorker_def)
  also have "\<dots> = base s"
    using base_holder [OF create(3,1)] create(1,2) by (simp add: setWorker_def)
  finally have b: "base ?s' = base s" .
  have "sum_list (map lockRecs ((workers s)[i := Recording PFileCount l n b])) + lockRecs (workers s ! i) =
        sum_list (map lockRecs (workers s)) + lockRecs (Recording PFileCount l n b)"
    using create by (intro sum_list_map_update) simp
  then have "outstanding os ?s' = outstanding os s"
    using create by (simp add: outstanding_def setWorker_def)
  with b show ?case by (simp add: total_def)
next
  case (fileCount i s l n b)
  let ?s' = "setWorker i (Recording PLineCount l n b) (s\<lparr>stats := incFileCount l (stats s)\<rparr>)"
  have m: "mutexInv ?s'" using step.fileCount [OF fileCount(1,2)] fileCount(3) by (rule step_mutexInv)
  have "base ?s' = finishW (workers ?s' ! i) (stats ?s')"
    using fileCount by (intro base_holder [OF m]) (simp_all add: setWorker_def)
  also have "\<dots> = base s"
    using base_holder [OF fileCount(3,1)] fileCount(1,2) by (simp add: setWorker_def)
  finally have b: "base ?s' = base s" .
  have "sum_list (map lockRecs ((workers s)[i := Recording PLineCount l n b])) + lockRecs (workers s ! i) =
        sum_list (map lockRecs (workers s)) + lockRecs (Recording PLineCount l n b)"
    using fileCount by (intro sum_list_map_update) simp
  then have "outstanding os ?s' = outstanding os s"
    using fileCount by (simp add: outstanding_def setWorker_def)
  with b show ?case by (simp add: total_def)
next
  case (lineCount i s l n b)
  let ?s' = "setWorker i (Recording PByteCount l n b) (s\<lparr>stats := addLineCount l n (stats s)\<rparr>)"
  have m: "mutexInv ?s'" using step.lineCount [OF lineCount(1,2)] lineCount(3) by (rule step_mutexInv)
  have "base ?s' = finishW (workers ?s' ! i) (stats ?s')"
    using lineCount by (intro base_holder [OF m]) (simp_all add: setWorker_def)
  also have "\<dots> = base s"
    using base_holder [OF lineCount(3,1)] lineCount(1,2) by (simp add: setWorker_def)
  finally have b: "base ?s' = base s" .
  have "sum_list (map lockRecs ((workers s)[i := Recording PByteCount l n b])) + lockRecs (workers s ! i) =
        sum_list (map lockRecs (workers s)) + lockRecs (Recording PByteCount l n b)"
    using lineCount by (intro sum_list_map_update) simp
  then have "outstanding os ?s' = outstanding os s"
    using lineCount by (simp add: outstanding_def setWorker_def)
  with b show ?case by (simp add: total_def)
next
  case (byteCount i s l n b)
  let ?s' = "setWorker i (Recording PUnlock l n b) (s\<lparr>stats := addByteCount l b (stats s)\<rparr>)"
  have m: "mutexInv ?s'" using step.byteCount [OF byteCount(1,2)] byteCount(3) by (rule step_mutexInv)
  have "base ?s' = finishW (workers ?s' ! i) (stats ?s')"
    using byteCount by (intro base_holder [OF m]) (simp_all add: setWorker_def)
  also have "\<dots> = base s"
    using base_holder [OF byteCount(3,1)] byteCount(1,2) by (simp add: setWorker_def)
  finally have b: "base ?s' = base s" .
  have "sum_list (map lockRecs ((workers s)[i := Recording PUnlock l n b])) + lockRecs (workers s ! i) =
        sum_list (map lockRecs (workers s)) + lockRecs (Recording PUnlock l n b)"
    using byteCount by (intro sum_list_map_update) simp
  then have "outstanding os ?s' = outstanding os s"
    using byteCount by (simp add: outstanding_def setWorker_def)
  with b show ?case by (simp add: total_def)
next
  case (unlock i s l n b)
  let ?s' = "setWorker i Receiving (s\<lparr>statsMutex := None\<rparr>)"
  have "base s = stats s" using base_holder [OF unlock(3,1)] unlock(2) by simp
  then have b: "base ?s' = base s" by (simp add: base_def setWorker_def)
  have "sum_list (map lockRecs ((workers s)[i := Receiving])) + lockRecs (workers s ! i) =
        sum_list (map lockRecs (workers s)) + lockRecs Receiving"
    using unlock by (intro sum_list_map_update) simp
  then have "outstanding os ?s' = outstanding os s"
    using unlock by (simp add: outstanding_def setWorker_def)
  with b show ?case by (simp add: total_def)
qed

lemmas fold_recF_union = comp_fun_commute.fold_mset_union [OF cfc_recF]

lemma reachable_inv:
  "(step os)\<^sup>*\<^sup>* (initPool numWorkers tasks) s \<Longrightarrow>
   mutexInv s \<and> chanInv s \<and> total os s = total os (initPool numWorkers tasks) \<and>
   length (workers s) = numWorkers"
proof (induction rule: rtranclp_induct)
  case base
  show ?case by (simp add: mutexInv_def chanInv_def initPool_def)
next
  case (step s s')
  then show ?case
    using step_mutexInv [of os s s'] step_chanInv [of os s s'] step_total [of os s s']
      step_length [of os s s'] by simp
qed

lemma processFile_taskRecs:
  "processFile os (path t) (language t) st = fold_mset recF st (taskRecs os t)"
  by (cases "openErr (os (path t)) = None \<and> statErr (os (path t)) = None")
     (auto simp: taskRecs_def counter_def Let_def processFile_opened processFile_failed recF_def
        fold_recF_add)

lemma fold_processFile_recs:
  "fold (\<lambda>t. processFile os (path t) (language t)) tasks st =
     fold_mset recF st (sum_list (map (taskRecs os) tasks))"
proof (induction tasks arbitrary: st)
  case Nil
  show ?case by simp
next
  case (Cons t tasks)
  show ?case by (simp add: Cons.IH) (simp add: processFile_taskRecs fold_recF_union)
qed

lemma aggregate_recs:
  "aggregate os tasks = fold_mset recF Map.empty (sum_list (map (taskRecs os) tasks))"
  by (simp add: aggregate_def fold_processFile_recs)

lemma sum_list_replicate_empty: "sum_list (replicate n ({#} :: 'a multiset)) = {#}"
  by (induction n) simp_all

lemma total_init: "total os (initPool numWorkers tasks) = aggregate os tasks"
  by (simp add: total_def base_def outstanding_def initPool_def aggregate_recs
        sum_list_replicate_empty)

lemma lockRecs_Returned: "list_all (\<lambda>w. w = Returned) ws \<Longrightarrow> sum_list (map lockRecs ws) = {#}"
  by (induction ws) auto

lemma drained_total:
  assumes "drained s" "mutexInv s" "chanInv s"
  shows "total os s = stats s"
proof -
  from assms(1) have ne: "workers s \<noteq> []" and all: "list_all (\<lambda>w. w = Returned) (workers s)"
    by (simp_all add: drained_def)
  have ret: "workers s ! i = Returned" if "i < length (workers s)" for i
    using all that by (simp add: list_all_length)
  have "statsMutex s = None"
  proof (cases "statsMutex s")
    case (Some h)
    with assms(2) have "h < length (workers s)" "inCS (workers s ! h)"
      by (auto simp: mutexInv_def)
    with ret [of h] show ?thesis by simp
  qed simp
  then have b: "base s = stats s" by (simp add: base_def)
  from ne have "0 < length (workers s)" by simp
  with ret [of 0] assms(3) have "closed s" "filesChan s = []" by (auto simp: chanInv_def)
  with assms(3) have "pending s = []" by (simp add: chanInv_def)
  with \<open>filesChan s = []\<close> all have "outstanding os s = {#}"
    by (simp add: outstanding_def lockRecs_Returned)
  with b show ?thesis by (simp add: total_def)
qed

lemma pool_result: "runs_to os numWorkers tasks s \<Longrightarrow> stats s = aggregate os tasks"
  using reachable_inv [of os numWorkers tasks s] drained_total [of s os]
  by (simp add: runs_to_def total_init)

lemma aggregate_mset:
  "mset tasks = mset tasks' \<Longrightarrow> aggregate os tasks = aggregate os tasks'"
proof -
  assume m: "mset tasks = mset tasks'"
  have "sum_list (map (taskRecs os) xs) = sum_mset (image_mset (taskRecs os) (mset xs))" for xs
    by (induction xs) simp_all
  with m show ?thesis by (simp add: aggregate_recs)
qed

lemma mutual_exclusion:
  assumes "(step os)\<^sup>*\<^sup>* (initPool numWorkers tasks) s"
    "i < length (workers s)" "j < length (workers s)" "inCS (workers s ! i)" "inCS (workers s ! j)"
  shows "i = j"
  using reachable_inv [OF assms(1)] assms(2-5) by (auto simp: mutexInv_def)

text \<open>One schedule that always exists: the walker sends a task, the first worker takes it
  and records it, and so on; then the channel is closed and the workers return.\<close>

definition busy :: "nat \<Rightarrow> FileResult list \<Rightarrow> FileResult list \<Rightarrow> StatsTable \<Rightarrow> nat option \<Rightarrow> wstate \<Rightarrow> pool" where
  "busy numWorkers ts ch st m w =
     \<lparr>pending = ts, closed = False, filesChan = ch, statsMutex = m, stats = st,
      workers = (replicate numWorkers Receiving)[0 := w]\<rparr>"

lemma replicate_update_same: "(replicate n x)[i := x] = replicate n x"
  by (metis length_replicate list_update_beyond list_update_id not_le_imp_less nth_replicate)

lemma busy_send:
  "step os (busy n (t # ts) [] st None Receiving) (busy n ts [t] st None Receiving)"
  using step.send [of "busy n (t # ts) [] st None Receiving" t ts os]
  by (simp add: busy_def)

lemma busy_recv:
  "0 < n \<Longrightarrow>
   step os (busy n ts [t] st None Receiving)
     (busy n ts [] st None
        (case counter os t of None \<Rightarrow> Receiving | Some (l, c, b) \<Rightarrow> Recording PLock l c b))"
  using step.recv [of 0 "busy n ts [t] st None Receiving" t "[]" os]
  by (simp add: busy_def setWorker_def replicate_update_same)

lemma busy_lock:
  "0 < n \<Longrightarrow>
   step os (busy n ts [] st None (Recording PLock l c b))
     (busy n ts [] st (Some 0) (Recording PCheck l c b))"
  using step.lock [of 0 "busy n ts [] st None (Recording PLock l c b)" l c b os]
  by (simp add: busy_def setWorker_def)

lemma busy_check:
  "0 < n \<Longrightarrow>
   step os (busy n ts [] st (Some 0) (Recording PCheck l c b))
     (busy n ts [] st (Some 0) (Recording (if st l = None then PCreate else PFileCount) l c b))"
  using step.check [of 0 "busy n ts [] st (Some 0) (Recording PCheck l c b)" l c b os]
  by (simp add: busy_def setWorker_def)

lemma busy_create:
  "0 < n \<Longrightarrow>
   step os (busy n ts [] st (Some 0) (Recording PCreate l c b))
     (busy n ts [] (st(l \<mapsto> zeroStats)) (Some 0) (Recording PFileCount l c b))"
  using step.create [of 0 "busy n ts [] st (Some 0) (Recording PCreate l c b)" l c b os]
  by (simp add: busy_def setWorker_def)

lemma busy_fileCount:
  "0 < n \<Longrightarrow>
   step os (busy n ts [] st (Some 0) (Recording PFileCount l c b))
     (busy n ts [] (incFileCount l st) (Some 0) (Recording PLineCount l c b))"
  using step.fileCount [of 0 "busy n ts [] st (Some 0) (Recording PFileCount l c b)" l c b os]
  by (simp add: busy_def setWorker_def)

lemma busy_lineCount:
  "0 < n \<Longrightarrow>
   step os (busy n ts [] st (Some 0) (Recording PLineCount l c b))
     (busy n ts [] (addLineCount l c st) (Some 0) (Recording PByteCount l c b))"
  using step.lineCount [of 0 "busy n ts [] st (Some 0) (Recording PLineCount l c b)" l c b os]
  by (simp add: busy_def setWorker_def)

lemma busy_byteCount:
  "0 < n \<Longrightarrow>
   step os (busy n ts [] st (Some 0) (Recording PByteCount l c b))
     (busy n ts [] (addByteCount l b st) (Some 0) (Recording PUnlock l c b))"
  using step.byteCount [of 0 "busy n ts [] st (Some 0) (Recording PByteCount l c b)" l c b os]
  by (simp add: busy_def setWorker_def)

lemma busy_unlock:
  "0 < n \<Longrightarrow>
   step os (busy n ts [] st (Some 0) (Recording PUnlock l c b)) (busy n ts [] st None Receiving)"
  using step.unlock [of 0 "busy n ts [] st (Some 0) (Recording PUnlock l c b)" l c b os]
  by (simp add: busy_def setWorker_def)

lemma busy_record:
  assumes "0 < n"
  shows "(step os)\<^sup>*\<^sup>* (busy n ts [] st None (Recording PLock l c b))
           (busy n ts [] (recordFile l c b st) None Receiving)"
proof -
  note [simp] = recordFile_def createEntry_def
  have 1: "(step os)\<^sup>*\<^sup>* (busy n ts [] st None (Recording PLock l c b))
             (busy n ts [] (createEntry l st) (Some 0) (Recording PFileCount l c b))"
  proof (cases "st l = None")
    case True
    have a: "step os (busy n ts [] st None (Recording PLock l c b))
               (busy n ts [] st (Some 0) (Recording PCheck l c b))"
      by (rule busy_lock [OF assms])
    have b: "step os (busy n ts [] st (Some 0) (Recording PCheck l c b))
               (busy n ts [] st (Some 0) (Recording PCreate l c b))"
      using busy_check [OF assms, of os ts st l c b] True by simp
    have c: "step os (busy n ts [] st (Some 0) (Recording PCreate l c b))
               (busy n ts [] (createEntry l st) (Some 0) (Recording PFileCount l c b))"
      using busy_create [OF assms, of os ts st l c b] True by simp
    from a b c show ?thesis
      by (meson rtranclp.rtrancl_into_rtrancl r_into_rtranclp)
  next
    case False
    have a: "step os (busy n ts [] st None (Recording PLock l c b))
               (busy n ts [] st (Some 0) (Recording PCheck l c b))"
      by (rule busy_lock [OF assms])
    have b: "step os (busy n ts [] st (Some 0) (Recording PCheck l c b))
               (busy n ts [] (createEntry l st) (Some 0) (Recording PFileCount l c b))"
      using busy_check [OF assms, of os ts st l c b] False by auto
    from a b show ?thesis
      by (meson rtranclp.rtrancl_into_rtrancl r_into_rtranclp)
  qed
  from 1 busy_fileCount [OF assms] have 2: "(step os)\<^sup>*\<^sup>* (busy n ts [] st None (Recording PLock l c b))
             (busy n ts [] (incFileCount l (createEntry l st)) (Some 0) (Recording PLineCount l c b))"
    by (rule rtranclp.rtrancl_into_rtrancl)
  from 2 busy_lineCount [OF assms] have 3: "(step os)\<^sup>*\<^sup>* (busy n ts [] st None (Recording PLock l c b))
             (busy n ts [] (addLineCount l c (incFileCount l (createEntry l st))) (Some 0)
                (Recording PByteCount l c b))"
    by (rule rtranclp.rtrancl_into_rtrancl)
  from 3 busy_byteCount [OF assms] have 4: "(step os)\<^sup>*\<^sup>* (busy n ts [] st None (Recording PLock l c b))
             (busy n ts [] (recordFile l c b st) (Some 0) (Recording PUnlock l c b))"
    unfolding recordFile_def by (rule rtranclp.rtrancl_into_rtrancl)
  from 4 busy_unlock [OF assms] show ?thesis
    by (rule rtranclp.rtrancl_into_rtrancl)
qed

lemma processFile_counter:
  "processFile os (path t) (language t) st =
     (case counter os t of None \<Rightarrow> st | Some (l, c, b) \<Rightarrow> recordFile l c b st)"
  by (cases "openErr (os (path t)) = None \<and> statErr (os (path t)) = None")
     (auto simp: counter_def Let_def processFile_opened processFile_failed)

lemma busy_one:
  assumes "0 < n"
  shows "(step os)\<^sup>*\<^sup>* (busy n (t # ts) [] st None Receiving)
           (busy n ts [] (processFile os (path t) (language t) st) None Receiving)"
proof -
  have 1: "(step os)\<^sup>*\<^sup>* (busy n (t # ts) [] st None Receiving)
     (busy n ts [] st None
        (case counter os t of None \<Rightarrow> Receiving | Some (l, c, b) \<Rightarrow> Recording PLock l c b))"
    using busy_send [of os n t ts st] busy_recv [OF assms, of os ts t st]
    by (meson rtranclp.rtrancl_into_rtrancl r_into_rtranclp)
  show ?thesis
  proof (cases "counter os t")
    case None
    with 1 show ?thesis by (simp add: processFile_counter)
  next
    case (Some r)
    obtain l c b where r: "r = (l, c, b)" by (cases r)
    from 1 Some r busy_record [OF assms, of os ts st l c b] show ?thesis
      by (simp add: processFile_counter)
  qed
qed

lemma busy_all:
  assumes "0 < n"
  shows "(step os)\<^sup>*\<^sup>* (busy n ts [] st None Receiving)
           (busy n [] [] (fold (\<lambda>t. processFile os (path t) (language t)) ts st) None Receiving)"
proof (induction ts arbitrary: st)
  case Nil
  show ?case by simp
next
  case (Cons t ts)
  from busy_one [OF assms, of os t ts st] Cons.IH [of "processFile os (path t) (language t) st"]
  show ?case by simp
qed

definition closing :: "nat \<Rightarrow> nat \<Rightarrow> StatsTable \<Rightarrow> pool" where
  "closing k m st =
     \<lparr>pending = [], closed = True, filesChan = [], statsMutex = None, stats = st,
      workers = replicate k Returned @ replicate m Receiving\<rparr>"

lemma closing_return: "step os (closing k (Suc m) st) (closing (Suc k) m st)"
proof -
  have u: "(replicate k Returned @ Receiving # replicate m Receiving)[k := Returned] =
           replicate (Suc k) Returned @ replicate m Receiving"
    by (simp add: list_update_append replicate_append_same)
  show ?thesis
    using step.return [of k "closing k (Suc m) st" os]
    by (simp add: closing_def setWorker_def nth_append u)
qed

lemma closing_all: "(step os)\<^sup>*\<^sup>* (closing k m st) (closing (k + m) 0 st)"
proof (induction m arbitrary: k)
  case 0
  show ?case by simp
next
  case (Suc m)
  from closing_return [of os k m st] Suc.IH [of "Suc k"] show ?case
    by (simp add: converse_rtranclp_into_rtranclp)
qed

lemma busy_close: "step os (busy n [] [] st None Receiving) (closing 0 n st)"
  using step.close [of "busy n [] [] st None Receiving" os]
  by (simp add: busy_def closing_def replicate_update_same)

lemma run_exists:
  assumes "0 < numWorkers"
  shows "\<exists>s. runs_to os numWorkers tasks s"
proof -
  have i: "initPool numWorkers tasks = busy numWorkers tasks [] Map.empty None Receiving"
    by (simp add: initPool_def busy_def replicate_update_same)
  let ?st = "aggregate os tasks"
  have 1: "(step os)\<^sup>*\<^sup>* (initPool numWorkers tasks) (busy numWorkers [] [] ?st None Receiving)"
    unfolding i aggregate_def by (rule busy_all [OF assms])
  have 2: "(step os)\<^sup>*\<^sup>* (initPool numWorkers tasks) (closing 0 numWorkers ?st)"
    using 1 busy_close by (rule rtranclp.rtrancl_into_rtrancl)
  have 3: "(step os)\<^sup>*\<^sup>* (initPool numWorkers tasks) (closing numWorkers 0 ?st)"
    using 2 closing_all [of os 0 numWorkers ?st] by simp
  have "drained (closing numWorkers 0 ?st)"
    using assms by (simp add: drained_def closing_def list_all_length)
  with 3 show ?thesis unfolding runs_to_def by blast
qed

text \<open>Every step uses up some of the work that is left, so no schedule runs forever.\<close>

fun pcWeight :: "pc \<Rightarrow> nat" where
  "pcWeight PLock = 9"
| "pcWeight PCheck = 8"
| "pcWeight PCreate = 7"
| "pcWeight PFileCount = 6"
| "pcWeight PLineCount = 5"
| "pcWeight PByteCount = 4"
| "pcWeight PUnlock = 3"

fun workLeft :: "wstate \<Rightarrow> nat" where
  "workLeft Receiving = 1"
| "workLeft (Recording p l n b) = pcWeight p"
| "workLeft Returned = 0"

definition poolWork :: "pool \<Rightarrow> nat" where
  "poolWork s =
     11 * length (pending s) + 10 * length (filesChan s) + sum_list (map workLeft (workers s)) +
     (if closed s then 0 else 1)"

lemma workLeft_update:
  "i < length ws \<Longrightarrow> workLeft w < workLeft (ws ! i) + k \<Longrightarrow>
   sum_list (map workLeft (ws[i := w])) < sum_list (map workLeft ws) + k"
  using sum_list_map_update [of i ws workLeft w] by linarith

lemma step_poolWork: "step os s s' \<Longrightarrow> poolWork s' < poolWork s"
proof (induction rule: step.induct)
  case (send s t ts)
  then show ?case by (simp add: poolWork_def)
next
  case (close s)
  then show ?case by (simp add: poolWork_def)
next
  case (recv i s t ts)
  let ?w = "case counter os t of None \<Rightarrow> Receiving | Some (l, n, b) \<Rightarrow> Recording PLock l n b"
  have "workLeft ?w < workLeft (workers s ! i) + 10"
    using recv by (simp split: option.splits)
  from workLeft_update [OF recv(1) this] recv show ?case
    by (simp add: poolWork_def setWorker_def)
next
  case (return i s)
  from workLeft_update [OF return(1), of Returned 0] return show ?case
    by (simp add: poolWork_def setWorker_def)
next
  case (lock i s l n b)
  from workLeft_update [OF lock(1), of "Recording PCheck l n b" 0] lock show ?case
    by (simp add: poolWork_def setWorker_def)
next
  case (check i s l n b)
  from workLeft_update [OF check(1), of "Recording (if stats s l = None then PCreate else PFileCount) l n b" 0]
    check show ?case
    by (simp add: poolWork_def setWorker_def)
next
  case (create i s l n b)
  from workLeft_update [OF create(1), of "Recording PFileCount l n b" 0] create show ?case
    by (simp add: poolWork_def setWorker_def)
next
  case (fileCount i s l n b)
  from workLeft_update [OF fileCount(1), of "Recording PLineCount l n b" 0] fileCount show ?case
    by (simp add: poolWork_def setWorker_def)
next
  case (lineCount i s l n b)
  from workLeft_update [OF lineCount(1), of "Recording PByteCount l n b" 0] lineCount show ?case
    by (simp add: poolWork_def setWorker_def)
next
  case (byteCount i s l n b)
  from workLeft_update [OF byteCount(1), of "Recording PUnlock l n b" 0] byteCount show ?case
    by (simp add: poolWork_def setWorker_def)
next
  case (unlock i s l n b)
  from workLeft_update [OF unlock(1), of Receiving 0] unlock show ?case
    by (simp add: poolWork_def setWorker_def)
qed

text \<open>No deadlock: a state the pool can reach, in which some worker has not returned, has
  a next step.\<close>

lemma progress:
  assumes "mutexInv s" "workers s \<noteq> []" "\<not> drained s"
  shows "\<exists>s'. step os s s'"
proof -
  from assms(2,3) obtain i where i: "i < length (workers s)" "workers s ! i \<noteq> Returned"
    by (auto simp: drained_def list_all_length)
  show ?thesis
  proof (cases "\<exists>j<length (workers s). \<exists>p l n b. workers s ! j = Recording p l n b \<and> p \<noteq> PLock")
    case True
    then obtain j p l n b where j: "j < length (workers s)" "workers s ! j = Recording p l n b"
      "p \<noteq> PLock" by blast
    then show ?thesis
      by (cases p) (blast intro: step.intros)+
  next
    case False
    note np = False
    then have nocs: "\<not> inCS (workers s ! j)" if "j < length (workers s)" for j
      using that by (cases "workers s ! j") auto
    have free: "statsMutex s = None"
    proof (cases "statsMutex s")
      case (Some h)
      with assms(1) have "h < length (workers s)" "inCS (workers s ! h)"
        by (auto simp: mutexInv_def)
      with nocs show ?thesis by blast
    qed simp
    show ?thesis
    proof (cases "\<exists>j<length (workers s). \<exists>l n b. workers s ! j = Recording PLock l n b")
      case True
      with free show ?thesis by (blast intro: step.lock)
    next
      case False
      with i
      have r: "workers s ! i = Receiving"
      proof (cases "workers s ! i")
        case (Recording p l n b)
        with np False i(1) show ?thesis by (cases "p = PLock") blast+
      qed simp_all
      show ?thesis
      proof (cases "filesChan s")
        case (Cons t ts)
        with i(1) r show ?thesis by (blast intro: step.recv)
      next
        case Nil
        show ?thesis
        proof (cases "closed s")
          case True
          with i(1) r Nil show ?thesis by (blast intro: step.return)
        next
          case False
          show ?thesis
          proof (cases "pending s")
            case Nil
            with False show ?thesis by (blast intro: step.close)
          next
            case (Cons t ts)
            with \<open>filesChan s = []\<close> show ?thesis
              using step.send [of s t ts os] by auto
          qed
        qed
      qed
    qed
  qed
qed

lemma drains:
  assumes "(step os)\<^sup>*\<^sup>* (initPool numWorkers tasks) s" "0 < numWorkers"
  shows "\<exists>s'. (step os)\<^sup>*\<^sup>* s s' \<and> drained s'"
  using assms(1)
proof (induction "poolWork s" arbitrary: s rule: less_induct)
  case less
  show ?case
  proof (cases "drained s")
    case True
    then show ?thesis by blast
  next
    case False
    from reachable_inv [OF less.prems] assms(2) have "mutexInv s" "workers s \<noteq> []" by auto
    from progress [OF this False] obtain s1 where s1: "step os s s1" by blast
    from less.prems s1 have "(step os)\<^sup>*\<^sup>* (initPool numWorkers tasks) s1"
      by (rule rtranclp.rtrancl_into_rtrancl)
    from less.hyps [OF step_poolWork [OF s1] this] obtain s' where
      "(step os)\<^sup>*\<^sup>* s1 s'" "drained s'" by blast
    with s1 show ?thesis by (meson converse_rtranclp_into_rtranclp)
  qed
qed

section \<open>The aggregator under concurrent workers\<close>

text \<open>
  Claim C4. \<open>recordFile\<close> creates a zeroed entry for an unseen language and then applies
  the increment, or increments the entry that is there. In the worker pool of \<open>main.go\<close> and
  \<open>part_000\<close> it is one indivisible unit: in every state the pool can reach, at most one
  worker is between \<open>Lock\<close> and \<open>Unlock\<close>; and when two files of the same new language
  are recorded, under every schedule the table ends with one entry that holds both
  contributions.
\<close>

theorem recordFile_indivisible:
  "recordFile l n b st =
     st(l \<mapsto> (case st l of
                 None \<Rightarrow> \<lparr>FileCount = 1, LineCount = n, ByteCount = b\<rparr>
               | Some x \<Rightarrow> \<lparr>FileCount = FileCount x + 1, LineCount = LineCount x + n,
                            ByteCount = ByteCount x + b\<rparr>)) \<and>
   ((step os)\<^sup>*\<^sup>* (initPool numWorkers tasks) s \<and> i < length (workers s) \<and>
    j < length (workers s) \<and> inCS (workers s ! i) \<and> inCS (workers s ! j) \<longrightarrow> i = j) \<and>
   (runs_to os numWorkers [t1, t2] s' \<and> counter os t1 = Some (k, n1, b1) \<and>
    counter os t2 = Some (k, n2, b2) \<longrightarrow>
      stats s' = [k \<mapsto> \<lparr>FileCount = 2, LineCount = n1 + n2, ByteCount = b1 + b2\<rparr>])"
proof (intro conjI impI)
  show "recordFile l n b st =
     st(l \<mapsto> (case st l of
                 None \<Rightarrow> \<lparr>FileCount = 1, LineCount = n, ByteCount = b\<rparr>
               | Some x \<Rightarrow> \<lparr>FileCount = FileCount x + 1, LineCount = LineCount x + n,
                            ByteCount = ByteCount x + b\<rparr>))"
    by (rule recordFile_apply)
next
  assume "(step os)\<^sup>*\<^sup>* (initPool numWorkers tasks) s \<and> i < length (workers s) \<and>
    j < length (workers s) \<and> inCS (workers s ! i) \<and> inCS (workers s ! j)"
  then show "i = j" using mutual_exclusion [of os numWorkers tasks s i j] by blast
next
  assume a: "runs_to os numWorkers [t1, t2] s' \<and> counter os t1 = Some (k, n1, b1) \<and>
    counter os t2 = Some (k, n2, b2)"
  then have "stats s' = aggregate os [t1, t2]" using pool_result by blast
  with a show "stats s' = [k \<mapsto> \<lparr>FileCount = 2, LineCount = n1 + n2, ByteCount = b1 + b2\<rparr>]"
    by (simp add: aggregate_def processFile_counter recordFile_apply)
qed

text \<open>An example: two Go files of one line each, and two workers.\<close>

definition task_a :: FileResult where
  "task_a = \<lparr>path = ''/home/u/Desktop/a.go'', language = ''Go''\<rparr>"

definition task_d :: FileResult where
  "task_d = \<lparr>path = ''/home/u/Desktop/d.go'', language = ''Go''\<rparr>"

lemma counter_os_ex: "counter os_ex \<lparr>path = p, language = l\<rparr> = Some (l, 1, 13)"
proof -
  have "openErr (os_ex p) = None" "statErr (os_ex p) = None" "Size (os_ex p) = 13"
    by (simp_all add: os_ex_def)
  then show ?thesis by (simp add: counter_def scanLoop_os_ex)
qed

theorem recordFile_indivisible_witness:
  "\<exists>s s'. (step os_ex)\<^sup>*\<^sup>* (initPool 2 [task_a, task_d]) s \<and> 0 < length (workers s) \<and>
      inCS (workers s ! 0) \<and>
      runs_to os_ex 2 [task_a, task_d] s' \<and>
      counter os_ex task_a = Some (''Go'', 1, 13) \<and> counter os_ex task_d = Some (''Go'', 1, 13) \<and>
      stats s' = [''Go'' \<mapsto> \<lparr>FileCount = 2, LineCount = 2, ByteCount = 26\<rparr>]"
proof -
  let ?s = "busy 2 [task_d] [] Map.empty (Some 0) (Recording PCheck ''Go'' 1 13)"
  have i: "initPool 2 [task_a, task_d] = busy 2 [task_a, task_d] [] Map.empty None Receiving"
    by (simp add: initPool_def busy_def replicate_update_same)
  have c: "counter os_ex task_a = Some (''Go'', 1, 13)" "counter os_ex task_d = Some (''Go'', 1, 13)"
    by (simp_all add: task_a_def task_d_def counter_os_ex)
  have 1: "step os_ex (initPool 2 [task_a, task_d]) (busy 2 [task_d] [task_a] Map.empty None Receiving)"
    unfolding i by (rule busy_send)
  have 2: "step os_ex (busy 2 [task_d] [task_a] Map.empty None Receiving)
             (busy 2 [task_d] [] Map.empty None (Recording PLock ''Go'' 1 13))"
    using busy_recv [of 2 os_ex "[task_d]" task_a Map.empty] c by simp
  have 3: "step os_ex (busy 2 [task_d] [] Map.empty None (Recording PLock ''Go'' 1 13)) ?s"
    by (rule busy_lock) simp
  from 1 2 3 have r: "(step os_ex)\<^sup>*\<^sup>* (initPool 2 [task_a, task_d]) ?s"
    by (meson rtranclp.rtrancl_into_rtrancl r_into_rtranclp)
  have w: "0 < length (workers ?s)" "inCS (workers ?s ! 0)" by (simp_all add: busy_def)
  obtain s' where s': "runs_to os_ex 2 [task_a, task_d] s'"
    using run_exists [of 2 os_ex "[task_a, task_d]"] by auto
  note t = recordFile_indivisible [of "''Go''" 1 13 Map.empty os_ex 2 "[task_a, task_d]" ?s 0 0
      task_a task_d s' "''Go''" 1 13 1 13]
  from t s' c have "stats s' = [''Go'' \<mapsto> \<lparr>FileCount = 2, LineCount = 2, ByteCount = 26\<rparr>]"
    by simp
  with r w s' c show ?thesis by blast
qed

text \<open>
  Claim C5. For a fixed state of the files the table at the end of a run does not depend on
  the schedule, on the number of workers or on the order of the tasks: every complete run
  ends with the table of the sequential run, complete runs exist for every positive
  number of workers, no reachable state is stuck before all workers have returned, and
  \<open>recordFile\<close> commutes with itself.
\<close>

theorem totals_independent_of_schedule:
  "(0 < numWorkers \<longrightarrow> (\<exists>s. runs_to os numWorkers tasks s)) \<and>
   ((step os)\<^sup>*\<^sup>* (initPool numWorkers tasks) s0 \<and> 0 < numWorkers \<longrightarrow>
      (\<exists>s. (step os)\<^sup>*\<^sup>* s0 s \<and> drained s)) \<and>
   (runs_to os n tasks s \<and> runs_to os m tasks' s' \<and> mset tasks = mset tasks' \<longrightarrow>
      stats s = stats s' \<and> stats s = aggregate os tasks) \<and>
   recordFile l a b (recordFile l' a' b' st) = recordFile l' a' b' (recordFile l a b st)"
proof (intro conjI impI)
  assume "0 < numWorkers"
  then show "\<exists>s. runs_to os numWorkers tasks s" by (rule run_exists)
next
  assume "(step os)\<^sup>*\<^sup>* (initPool numWorkers tasks) s0 \<and> 0 < numWorkers"
  then show "\<exists>s. (step os)\<^sup>*\<^sup>* s0 s \<and> drained s" using drains by blast
next
  assume a: "runs_to os n tasks s \<and> runs_to os m tasks' s' \<and> mset tasks = mset tasks'"
  then have "stats s = aggregate os tasks" "stats s' = aggregate os tasks'"
    using pool_result by blast+
  with a aggregate_mset [of tasks tasks' os]
  show "stats s = stats s'" "stats s = aggregate os tasks" by simp_all
next
  show "recordFile l a b (recordFile l' a' b' st) = recordFile l' a' b' (recordFile l a b st)"
    by (rule recordFile_commute)
qed

theorem totals_independent_of_schedule_witness:
  "\<exists>s s'. runs_to os_mixed 1 tasks_mixed s \<and> runs_to os_mixed 4 (rev tasks_mixed) s' \<and>
      mset tasks_mixed = mset (rev tasks_mixed) \<and> stats s = stats s' \<and>
      stats s = [''Go'' \<mapsto> \<lparr>FileCount = 2, LineCount = 2, ByteCount = 26\<rparr>] \<and>
      (step os_mixed)\<^sup>*\<^sup>* (initPool 1 tasks_mixed) (initPool 1 tasks_mixed)"
proof -
  have ex: "\<exists>s. runs_to os_mixed k ts s" if "0 < k" for k ts
    using totals_independent_of_schedule [of k os_mixed ts] that by blast
  obtain s where s: "runs_to os_mixed 1 tasks_mixed s"
    using ex [of 1 tasks_mixed] by auto
  obtain s' where s': "runs_to os_mixed 4 (rev tasks_mixed) s'"
    using ex [of 4 "rev tasks_mixed"] by auto
  have m: "mset tasks_mixed = mset (rev tasks_mixed)" by simp
  have e: "stats s = stats s'" "stats s = aggregate os_mixed tasks_mixed"
    using totals_independent_of_schedule [of 1 os_mixed tasks_mixed s 1 s 4 "rev tasks_mixed" s']
      s s' m by blast+
  have p: "processFile os_mixed ''/home/u/Desktop/b.py'' l st = st" for l st
    by (rule processFile_failed) (simp add: os_mixed_def)
  have q: "processFile os_mixed ''/home/u/Desktop/a.go'' l st = recordFile l 1 13 st"
    "processFile os_mixed ''/home/u/Desktop/d.go'' l st = recordFile l 1 13 st" for l st
    using processFile_os_ex [of _ l st] by (simp_all add: processFile_def os_mixed_def)
  have "aggregate os_mixed tasks_mixed =
          [''Go'' \<mapsto> \<lparr>FileCount = 2, LineCount = 2, ByteCount = 26\<rparr>]"
    by (simp add: aggregate_def tasks_mixed_def p q recordFile_apply)
  with e s s' m show ?thesis by auto
qed

end
